theory Spec2Isabelle
  imports Complex_Main
begin

section \<open>The page: elements, document and window\<close>

text \<open>
  script.js is a set of controllers (MobileMenu, ScrollToTop, SmoothScrolling, FAQ,
  ScrollAnimations, HeaderScroll) that read and mutate the DOM. The page is modelled as
  an explicit store: every element is a node id, and the store maps it to the attributes,
  class tokens, inline style and layout readings that the script touches. An uncaught
  JavaScript exception is a value: an operation either completes (\<open>Normal\<close>) or throws
  (\<open>Throw\<close>); both carry the page as it is at that moment, because the mutations made
  before a throw stay in the DOM.
\<close>

type_synonym node = nat

datatype js_error = TypeError | SyntaxError | RangeError

datatype 's outcome = Normal 's | Throw js_error 's

datatype css_length = Unset | Px int

text \<open>The deferred callbacks the script hands to \<open>setTimeout\<close>.\<close>

datatype task =
  RemoveTransientTabindex node
| AddFadeIn node

text \<open>An \<open>IntersectionObserverEntry\<close>, as far as the script reads it.\<close>

datatype entry = Entry (entryTarget: node) (isIntersecting: bool)

text \<open>
  \<open>tagName\<close> is the element's name in lower case, as selectors match it.
  \<open>attributes\<close> holds the content attributes other than \<open>class\<close> and \<open>style\<close>, which
  are \<open>classList\<close> (a set of tokens) and \<open>maxHeight\<close> (the only inline style property
  of an element that the script writes). \<open>offsetTop\<close>, \<open>offsetHeight\<close> and
  \<open>scrollHeight\<close> are the integer layout readings of the browser, and \<open>offsetParent\<close>
  is the element that \<open>offsetTop\<close> is measured from, with \<open>None\<close> for \<open>null\<close> and also for
  the body element, which is not a node of the model (its \<open>offsetTop\<close> is 0 and its
  \<open>offsetParent\<close> is \<open>null\<close>). They are the values the script reads, and no operation
  of the script writes them.
\<close>

record element =
  tagName :: string
  attributes :: "string \<rightharpoonup> string"
  classList :: "string set"
  maxHeight :: css_length
  offsetTop :: int
  offsetHeight :: int
  scrollHeight :: int
  offsetParent :: "node option"

text \<open>
  The tree is never changed by the controllers; it is given by \<open>docOrder\<close> (all elements
  in tree order), \<open>descendants\<close> (per element, in tree order) and
  \<open>nextElementSibling\<close>.
  \<open>scrollToCalls\<close>, \<open>focusCalls\<close> and \<open>pushStateCalls\<close> log the calls of
  \<open>window.scrollTo\<close>, \<open>element.focus\<close> and \<open>history.pushState\<close>.
  \<open>eventDefaultPrevented\<close> is the flag of the event being dispatched. The last fields
  are the properties the controllers keep on themselves.
\<close>

record page =
  elems :: "node \<Rightarrow> element"
  docOrder :: "node list"
  descendants :: "node \<Rightarrow> node list"
  nextElementSibling :: "node \<Rightarrow> node option"
  bodyOverflow :: string
  pageYOffset :: real
  documentElementScrollTop :: real
  scrollToCalls :: "(int \<times> string) list"
  focusCalls :: "node list"
  pushStateCalls :: "string option list"
  eventDefaultPrevented :: bool
  timers :: "(nat \<times> task) list"
  now :: nat
  mobileMenuButton :: "node option"
  mobileMenu :: "node option"
  faqQuestions :: "node list"
  observed :: "node set"
  header :: "node option"
  lastScrollTop :: real

subsection \<open>Control flow with exceptions\<close>

definition andThen :: "'s outcome \<Rightarrow> ('s \<Rightarrow> 's outcome) \<Rightarrow> 's outcome" where
  "andThen r f = (case r of Normal s \<Rightarrow> f s | Throw e s \<Rightarrow> Throw e s)"

text \<open>\<open>list.forEach(f)\<close>: a throw inside the callback ends the loop.\<close>

fun forEach :: "('a \<Rightarrow> 's \<Rightarrow> 's outcome) \<Rightarrow> 'a list \<Rightarrow> 's \<Rightarrow> 's outcome" where
  "forEach f [] s = Normal s"
| "forEach f (x # xs) s = andThen (f x s) (forEach f xs)"

text \<open>\<open>f\<close> invoked \<open>n\<close> times in a row.\<close>

fun invokeTimes :: "nat \<Rightarrow> ('s \<Rightarrow> 's outcome) \<Rightarrow> 's \<Rightarrow> 's outcome" where
  "invokeTimes 0 f s = Normal s"
| "invokeTimes (Suc n) f s = andThen (f s) (invokeTimes n f)"

definition stateOf :: "'s outcome \<Rightarrow> 's" where
  "stateOf r = (case r of Normal s \<Rightarrow> s | Throw e s \<Rightarrow> s)"

definition returns :: "'s outcome \<Rightarrow> bool" where
  "returns r = (case r of Normal s \<Rightarrow> True | Throw e s \<Rightarrow> False)"

subsection \<open>Element operations\<close>

definition updElem :: "node \<Rightarrow> (element \<Rightarrow> element) \<Rightarrow> page \<Rightarrow> page" where
  "updElem n f p = p\<lparr>elems := (elems p)(n := f (elems p n))\<rparr>"

definition getAttribute :: "page \<Rightarrow> node \<Rightarrow> string \<Rightarrow> string option" where
  "getAttribute p n k = attributes (elems p n) k"

definition hasAttribute :: "page \<Rightarrow> node \<Rightarrow> string \<Rightarrow> bool" where
  "hasAttribute p n k = (attributes (elems p n) k \<noteq> None)"

definition setAttribute :: "node \<Rightarrow> string \<Rightarrow> string \<Rightarrow> page \<Rightarrow> page" where
  "setAttribute n k v = updElem n (\<lambda>e. e\<lparr>attributes := (attributes e)(k \<mapsto> v)\<rparr>)"

definition removeAttribute :: "node \<Rightarrow> string \<Rightarrow> page \<Rightarrow> page" where
  "removeAttribute n k = updElem n (\<lambda>e. e\<lparr>attributes := (attributes e)(k := None)\<rparr>)"

definition hasClass :: "page \<Rightarrow> node \<Rightarrow> string \<Rightarrow> bool" where
  "hasClass p n c = (c \<in> classList (elems p n))"

definition classList_add :: "node \<Rightarrow> string \<Rightarrow> page \<Rightarrow> page" where
  "classList_add n c = updElem n (\<lambda>e. e\<lparr>classList := insert c (classList e)\<rparr>)"

definition classList_remove :: "node \<Rightarrow> string \<Rightarrow> page \<Rightarrow> page" where
  "classList_remove n c = updElem n (\<lambda>e. e\<lparr>classList := classList e - {c}\<rparr>)"

definition classList_toggle :: "node \<Rightarrow> string \<Rightarrow> page \<Rightarrow> page" where
  "classList_toggle n c p =
     (if hasClass p n c then classList_remove n c p else classList_add n c p)"

text \<open>A boolean passed to \<open>setAttribute\<close> is converted to its string.\<close>

definition js_bool :: "bool \<Rightarrow> string" where
  "js_bool b = (if b then ''true'' else ''false'')"

subsection \<open>Queries\<close>

text \<open>\<open>root.querySelector('.c')\<close> and \<open>root.querySelector('tag')\<close> over a list of
  candidates in tree order.\<close>

definition firstWithClass :: "page \<Rightarrow> node list \<Rightarrow> string \<Rightarrow> node option" where
  "firstWithClass p ns c = find (\<lambda>n. hasClass p n c) ns"

definition firstWithTag :: "page \<Rightarrow> node list \<Rightarrow> string \<Rightarrow> node option" where
  "firstWithTag p ns t = find (\<lambda>n. tagName (elems p n) = t) ns"

definition getElementById :: "page \<Rightarrow> string \<Rightarrow> node option" where
  "getElementById p i = find (\<lambda>n. getAttribute p n ''id'' = Some i) (docOrder p)"

text \<open>\<open>a.contains(b)\<close>: \<open>b\<close> is \<open>a\<close> or one of its descendants.\<close>

definition contains :: "page \<Rightarrow> node \<Rightarrow> node \<Rightarrow> bool" where
  "contains p a b = (b = a \<or> b \<in> set (descendants p a))"

section \<open>MobileMenu\<close>

definition MobileMenu_init :: "page \<Rightarrow> page" where
  "MobileMenu_init p =
     p\<lparr>mobileMenuButton := firstWithClass p (docOrder p) ''mobile-menu-btn'',
       mobileMenu := getElementById p ''mobile-menu''\<rparr>"

text \<open>\<open>init\<close> binds the listeners only \<open>if (this.mobileMenuButton && this.mobileMenu)\<close>;
  the two properties are never assigned again.\<close>

definition MobileMenu_bound :: "page \<Rightarrow> bool" where
  "MobileMenu_bound p = (mobileMenuButton p \<noteq> None \<and> mobileMenu p \<noteq> None)"

definition toggleIcon :: "node \<Rightarrow> page \<Rightarrow> page" where
  "toggleIcon btn p =
     (case firstWithTag p (descendants p btn) ''i'' of
        None \<Rightarrow> p
      | Some icon \<Rightarrow> classList_toggle icon ''fa-times'' (classList_toggle icon ''fa-bars'' p))"

definition toggleMenu :: "page \<Rightarrow> page outcome" where
  "toggleMenu p =
     (case mobileMenuButton p of
        None \<Rightarrow> Throw TypeError p
      | Some btn \<Rightarrow>
          let isExpanded = (getAttribute p btn ''aria-expanded'' = Some ''true'');
              p1 = setAttribute btn ''aria-expanded'' (js_bool (\<not> isExpanded)) p
          in (case mobileMenu p1 of
                None \<Rightarrow> Throw TypeError p1
              | Some menu \<Rightarrow>
                  let p2 = classList_toggle menu ''active'' p1;
                      p3 = toggleIcon btn p2
                  in Normal (p3\<lparr>bodyOverflow := (if \<not> isExpanded then ''hidden'' else [])\<rparr>)))"

definition resetIcon :: "node \<Rightarrow> page \<Rightarrow> page" where
  "resetIcon btn p =
     (case firstWithTag p (descendants p btn) ''i'' of
        None \<Rightarrow> p
      | Some icon \<Rightarrow> classList_remove icon ''fa-times'' (classList_add icon ''fa-bars'' p))"

definition closeMenu :: "page \<Rightarrow> page outcome" where
  "closeMenu p =
     (case mobileMenuButton p of
        None \<Rightarrow> Throw TypeError p
      | Some btn \<Rightarrow>
          let p1 = setAttribute btn ''aria-expanded'' ''false'' p
          in (case mobileMenu p1 of
                None \<Rightarrow> Throw TypeError p1
              | Some menu \<Rightarrow>
                  let p2 = classList_remove menu ''active'' p1;
                      p3 = resetIcon btn p2
                  in Normal (p3\<lparr>bodyOverflow := []\<rparr>)))"


definition MobileMenu_onDocumentClick :: "node \<Rightarrow> page \<Rightarrow> page outcome" where
  "MobileMenu_onDocumentClick tgt p =
     (case (mobileMenuButton p, mobileMenu p) of
        (Some btn, Some menu) \<Rightarrow>
          (if \<not> contains p btn tgt \<and> \<not> contains p menu tgt then closeMenu p else Normal p)
      | _ \<Rightarrow> Normal p)"

definition MobileMenu_onKeydown :: "string \<Rightarrow> page \<Rightarrow> page outcome" where
  "MobileMenu_onKeydown key p =
     (if MobileMenu_bound p then (if key = ''Escape'' then closeMenu p else Normal p)
      else Normal p)"

text \<open>The closed configuration of the menu, mirrored in the trigger's ARIA attribute, the
  container's class, the icon glyph and the body's scroll lock.\<close>

definition menuClosed :: "page \<Rightarrow> bool" where
  "menuClosed p =
     (case (mobileMenuButton p, mobileMenu p) of
        (Some btn, Some menu) \<Rightarrow>
          getAttribute p btn ''aria-expanded'' = Some ''false'' \<and>
          \<not> hasClass p menu ''active'' \<and>
          (case firstWithTag p (descendants p btn) ''i'' of
             None \<Rightarrow> True
           | Some icon \<Rightarrow> hasClass p icon ''fa-bars'' \<and> \<not> hasClass p icon ''fa-times'') \<and>
          bodyOverflow p = []
      | _ \<Rightarrow> False)"

section \<open>Timers\<close>

text \<open>
  Time is a virtual clock in milliseconds. \<open>setTimeout(cb, d)\<close> appends \<open>(now + d, cb)\<close>
  to \<open>timers\<close>; \<open>advanceTo t\<close> lets the clock reach \<open>t\<close> and runs the callbacks that
  are due, by due time and, among equals, in the order they were set. A callback runs as
  soon as it is due, which is the earliest the browser may run it.
\<close>

definition setTimeout :: "task \<Rightarrow> nat \<Rightarrow> page \<Rightarrow> page" where
  "setTimeout cb delay p = p\<lparr>timers := timers p @ [(now p + delay, cb)]\<rparr>"

definition runTask :: "task \<Rightarrow> page \<Rightarrow> page" where
  "runTask cb p =
     (case cb of
        RemoveTransientTabindex el \<Rightarrow>
          (if getAttribute p el ''tabindex'' = Some ''-1''
           then removeAttribute el ''tabindex'' p else p)
      | AddFadeIn item \<Rightarrow> classList_add item ''animate-fade-in'' p)"

definition runTimer :: "nat \<times> task \<Rightarrow> page \<Rightarrow> page" where
  "runTimer x = runTask (snd x)"

definition advanceTo :: "nat \<Rightarrow> page \<Rightarrow> page" where
  "advanceTo t p =
     (let due = filter (\<lambda>x. fst x \<le> t) (timers p);
          rest = filter (\<lambda>x. \<not> fst x \<le> t) (timers p)
      in fold runTimer (sort_key fst due) (p\<lparr>timers := rest, now := max t (now p)\<rparr>))"

section \<open>SmoothScrolling\<close>

text \<open>
  \<open>document.querySelector(sel)\<close> for the strings an anchor's \<open>href\<close> can hand to it.
  Modelled here: the empty string and the bare \<open>#\<close>, which are not selectors (the DOM
  throws a \<open>SyntaxError\<close> for a string that does not parse as a selector), and \<open>#name\<close>
  for a name of ASCII letters, digits, \<open>_\<close> and \<open>-\<close> that starts with a letter or
  \<open>_\<close>, which selects the first element in tree order with that id. For every other
  string the answer is that of the parameter \<open>other\<close>: what the browser at hand returns
  or throws for it. The theorems below hold for every \<open>other\<close>.
\<close>

definition isNameStart :: "char \<Rightarrow> bool" where
  "isNameStart c =
     (let k = (of_char c :: nat)
      in (65 \<le> k \<and> k \<le> 90) \<or> (97 \<le> k \<and> k \<le> 122) \<or> k = 95)"

definition isNameChar :: "char \<Rightarrow> bool" where
  "isNameChar c =
     (let k = (of_char c :: nat)
      in isNameStart c \<or> (48 \<le> k \<and> k \<le> 57) \<or> k = 45)"

definition isName :: "string \<Rightarrow> bool" where
  "isName s = (case s of [] \<Rightarrow> False | c # cs \<Rightarrow> isNameStart c \<and> list_all isNameChar cs)"

definition querySelector ::
  "(string \<Rightarrow> js_error + node option) \<Rightarrow> page \<Rightarrow> string \<Rightarrow> js_error + node option" where
  "querySelector other p sel =
     (if sel = [] \<or> sel = ''#'' then Inl SyntaxError
      else if hd sel = CHR ''#'' \<and> isName (tl sel) then Inr (getElementById p (tl sel))
      else other sel)"

text \<open>A \<open>null\<close> passed where a string is expected is converted to \<open>"null"\<close>.\<close>

definition js_string :: "string option \<Rightarrow> string" where
  "js_string v = (case v of None \<Rightarrow> ''null'' | Some s \<Rightarrow> s)"

definition updateFocus :: "node \<Rightarrow> page \<Rightarrow> page" where
  "updateFocus el p =
     (let p1 = (if \<not> hasAttribute p el ''tabindex''
                then setAttribute el ''tabindex'' ''-1'' p else p);
          p2 = p1\<lparr>focusCalls := focusCalls p1 @ [el]\<rparr>
      in setTimeout (RemoveTransientTabindex el) 1000 p2)"

text \<open>\<open>document.querySelector('.header')?.offsetHeight || 0\<close>\<close>

definition headerHeight :: "page \<Rightarrow> int" where
  "headerHeight p =
     (case firstWithClass p (docOrder p) ''header'' of
        None \<Rightarrow> 0
      | Some h \<Rightarrow> (if offsetHeight (elems p h) \<noteq> 0 then offsetHeight (elems p h) else 0))"

definition handleAnchorClick ::
  "(string \<Rightarrow> js_error + node option) \<Rightarrow> node \<Rightarrow> page \<Rightarrow> page outcome" where
  "handleAnchorClick other anchor p0 =
     (let p = p0\<lparr>eventDefaultPrevented := True\<rparr>;
          targetId = getAttribute p anchor ''href''
      in (case querySelector other p (js_string targetId) of
            Inl err \<Rightarrow> Throw err p
          | Inr None \<Rightarrow> Normal p
          | Inr (Some el) \<Rightarrow>
              andThen (closeMenu p) (\<lambda>p1.
                let targetPosition = offsetTop (elems p1 el) - headerHeight p1 - 20;
                    p2 = p1\<lparr>scrollToCalls := scrollToCalls p1 @ [(targetPosition, ''smooth'')]\<rparr>;
                    p3 = updateFocus el p2
                in Normal (if targetId \<noteq> Some ''#''
                           then p3\<lparr>pushStateCalls := pushStateCalls p3 @ [targetId]\<rparr>
                           else p3))))"

section \<open>Utils\<close>

text \<open>
  \<open>Utils.getOffsetTop\<close>, the element's offset from the top of the document: the loop
  adds \<open>offsetTop\<close> along the chain of \<open>offsetParent\<close> until it reaches \<open>null\<close>. The
  result is \<open>None\<close> where the loop does not end (a chain that runs in a circle, which
  no document has). No controller calls it.
\<close>

partial_function (option) getOffsetTopLoop :: "page \<Rightarrow> node option \<Rightarrow> int \<Rightarrow> int option" where
  "getOffsetTopLoop p el acc =
     (case el of
        None \<Rightarrow> Some acc
      | Some e \<Rightarrow> getOffsetTopLoop p (offsetParent (elems p e)) (acc + offsetTop (elems p e)))"

definition getOffsetTop :: "page \<Rightarrow> node \<Rightarrow> int option" where
  "getOffsetTop p el = getOffsetTopLoop p (Some el) 0"

section \<open>FAQ\<close>

definition FAQ_init :: "page \<Rightarrow> page" where
  "FAQ_init p =
     p\<lparr>faqQuestions := filter (\<lambda>n. hasClass p n ''faq-item__question'') (docOrder p)\<rparr>"

definition animateHeight :: "node \<Rightarrow> bool \<Rightarrow> page \<Rightarrow> page" where
  "animateHeight el expand p =
     (if expand then updElem el (\<lambda>e. e\<lparr>maxHeight := Px (scrollHeight e)\<rparr>) p
      else updElem el (\<lambda>e. e\<lparr>maxHeight := Px 0\<rparr>) p)"

text \<open>The callback of the loop in \<open>closeAllFAQs\<close>: \<open>answer.classList\<close> throws when the
  question has no next element sibling, after the question itself has been reset.\<close>

definition closeFAQ :: "node \<Rightarrow> page \<Rightarrow> page outcome" where
  "closeFAQ question p =
     (let answer = nextElementSibling p question;
          p1 = setAttribute question ''aria-expanded'' ''false'' p;
          p2 = classList_remove question ''active'' p1
      in (case answer of
            None \<Rightarrow> Throw TypeError p2
          | Some a \<Rightarrow> Normal (animateHeight a False (classList_remove a ''active'' p2))))"

definition closeAllFAQs :: "page \<Rightarrow> page outcome" where
  "closeAllFAQs p = forEach closeFAQ (faqQuestions p) p"

definition toggleFAQ :: "node \<Rightarrow> page \<Rightarrow> page outcome" where
  "toggleFAQ question p =
     (let answer = nextElementSibling p question;
          isExpanded = (getAttribute p question ''aria-expanded'' = Some ''true'')
      in andThen (closeAllFAQs p) (\<lambda>p1.
           if \<not> isExpanded then
             (let p2 = setAttribute question ''aria-expanded'' ''true'' p1;
                  p3 = classList_add question ''active'' p2
              in (case answer of
                    None \<Rightarrow> Throw TypeError p3
                  | Some a \<Rightarrow> Normal (animateHeight a True (classList_add a ''active'' p3))))
           else Normal p1))"

text \<open>The two listeners \<open>bindEvents\<close> puts on every element of \<open>faqQuestions\<close>; an event
  on any other element reaches no listener of this controller.\<close>

datatype faq_event = QuestionClick node | QuestionKeydown node string

definition FAQ_handle :: "faq_event \<Rightarrow> page \<Rightarrow> page outcome" where
  "FAQ_handle ev p =
     (case ev of
        QuestionClick q \<Rightarrow>
          (if q \<in> set (faqQuestions p)
           then toggleFAQ q (p\<lparr>eventDefaultPrevented := True\<rparr>) else Normal p)
      | QuestionKeydown q key \<Rightarrow>
          (if q \<in> set (faqQuestions p) \<and> (key = ''Enter'' \<or> key = '' '')
           then toggleFAQ q (p\<lparr>eventDefaultPrevented := True\<rparr>) else Normal p))"

text \<open>A question/answer pair is expanded when the question has
  \<open>aria-expanded="true"\<close> and both elements bear the class \<open>active\<close>.\<close>

definition expanded :: "page \<Rightarrow> node \<Rightarrow> bool" where
  "expanded p q =
     (getAttribute p q ''aria-expanded'' = Some ''true'' \<and> hasClass p q ''active'' \<and>
      (case nextElementSibling p q of None \<Rightarrow> False | Some a \<Rightarrow> hasClass p a ''active''))"

definition expandedQuestions :: "page \<Rightarrow> node list" where
  "expandedQuestions p = filter (expanded p) (remdups (faqQuestions p))"

text \<open>The DOM contract of the controller: every question is followed by an element.\<close>

definition everyQuestionHasAnswer :: "page \<Rightarrow> bool" where
  "everyQuestionHasAnswer p = list_all (\<lambda>q. nextElementSibling p q \<noteq> None) (faqQuestions p)"

section \<open>ScrollAnimations\<close>

definition isCard :: "page \<Rightarrow> node \<Rightarrow> bool" where
  "isCard p n =
     (hasClass p n ''patology-card'' \<or> hasClass p n ''benefit-card'' \<or>
      hasClass p n ''testimonial-card'' \<or> hasClass p n ''doctor-card'' \<or>
      hasClass p n ''news-card'')"

definition observeElements :: "page \<Rightarrow> page" where
  "observeElements p =
     p\<lparr>observed := observed p
          \<union> set (filter (\<lambda>n. hasClass p n ''section'') (docOrder p))
          \<union> set (filter (\<lambda>n. hasClass p n ''card'' \<or> isCard p n) (docOrder p))\<rparr>"

definition gridItems :: "page \<Rightarrow> node \<Rightarrow> node list" where
  "gridItems p el = filter (isCard p) (descendants p el)"

definition addStaggeredAnimation :: "node \<Rightarrow> page \<Rightarrow> page" where
  "addStaggeredAnimation el p =
     fold (\<lambda>(index, item). setTimeout (AddFadeIn item) (index * 100))
       (enumerate 0 (gridItems p el)) p"

definition revealEntry :: "entry \<Rightarrow> page \<Rightarrow> page" where
  "revealEntry en p =
     (if isIntersecting en then
        (let p1 = classList_add (entryTarget en) ''animate-fade-in'' p;
             p2 = addStaggeredAnimation (entryTarget en) p1
         in p2\<lparr>observed := observed p2 - {entryTarget en}\<rparr>)
      else p)"

definition handleIntersection :: "entry list \<Rightarrow> page \<Rightarrow> page" where
  "handleIntersection entries p = fold revealEntry entries p"

text \<open>What can happen to the reveal state after initialisation: the observer delivers a
  batch of entries, or time passes and timers run.\<close>

datatype reveal_step = Intersections "entry list" | Elapse nat

definition revealStep :: "reveal_step \<Rightarrow> page \<Rightarrow> page" where
  "revealStep st p =
     (case st of
        Intersections entries \<Rightarrow> handleIntersection entries p
      | Elapse d \<Rightarrow> advanceTo (now p + d) p)"

definition revealed :: "page \<Rightarrow> node \<Rightarrow> bool" where
  "revealed p n = hasClass p n ''animate-fade-in''"

text \<open>The pages a run goes through, and the number of times an observation that was
  false becomes true along a run.\<close>

fun trace :: "('a \<Rightarrow> 's \<Rightarrow> 's) \<Rightarrow> 'a list \<Rightarrow> 's \<Rightarrow> 's list" where
  "trace f [] s = [s]"
| "trace f (x # xs) s = s # trace f xs (f x s)"

fun risings :: "bool list \<Rightarrow> nat" where
  "risings (a # b # bs) = (if \<not> a \<and> b then 1 else 0) + risings (b # bs)"
| "risings bs = 0"

section \<open>HeaderScroll\<close>

text \<open>\<open>init\<close> also sets \<open>scrollThreshold = 100\<close>, which nothing reads.\<close>

definition HeaderScroll_init :: "page \<Rightarrow> page" where
  "HeaderScroll_init p =
     p\<lparr>header := firstWithClass p (docOrder p) ''header'', lastScrollTop := 0\<rparr>"

text \<open>\<open>a || b\<close> on numbers: \<open>a\<close> unless it is zero.\<close>

definition js_or :: "real \<Rightarrow> real \<Rightarrow> real" where
  "js_or a b = (if a \<noteq> 0 then a else b)"

definition currentScrollTop :: "page \<Rightarrow> real" where
  "currentScrollTop p = js_or (pageYOffset p) (documentElementScrollTop p)"

definition handleScroll :: "page \<Rightarrow> page outcome" where
  "handleScroll p =
     (let scrollTop = currentScrollTop p
      in (case header p of
            None \<Rightarrow> Throw TypeError p
          | Some h \<Rightarrow>
              let p1 = (if scrollTop > 10 then classList_add h ''scrolled'' p
                        else classList_remove h ''scrolled'' p)
              in Normal (p1\<lparr>lastScrollTop := scrollTop\<rparr>)))"

section \<open>throttle\<close>



text \<open>
  What one application of \<open>func\<close> does, as seen from the wrapper: it returns, having
  brought its state to \<open>s\<close> (\<open>Done s\<close>); it throws (\<open>Raise err s\<close>); or, having brought its
  state to \<open>s\<close>, it calls the throttled wrapper itself and, when that call has returned,
  goes on from its state as it is then (\<open>Reenter s k\<close>). An exception that leaves the
  nested call is taken to leave \<open>func\<close> as well.
\<close>

datatype 's run = Done 's | Raise js_error 's | Reenter 's "'s \<Rightarrow> 's run"

















section \<open>A page to run the controllers on\<close>

definition blankElement :: element where
  "blankElement =
     \<lparr>tagName = ''div'', attributes = Map.empty, classList = {}, maxHeight = Unset,
      offsetTop = 0, offsetHeight = 0, scrollHeight = 0, offsetParent = None\<rparr>"

definition blankPage :: page where
  "blankPage =
     \<lparr>elems = (\<lambda>n. blankElement), docOrder = [], descendants = (\<lambda>n. []),
      nextElementSibling = (\<lambda>n. None),
      bodyOverflow = [], pageYOffset = 0, documentElementScrollTop = 0,
      scrollToCalls = [], focusCalls = [], pushStateCalls = [],
      eventDefaultPrevented = False, timers = [], now = 0,
      mobileMenuButton = None, mobileMenu = None, faqQuestions = [], observed = {},
      header = None, lastScrollTop = 0\<rparr>"

text \<open>The listener of \<open>DOMContentLoaded\<close>, for the controllers that keep properties.\<close>

definition initAll :: "page \<Rightarrow> page" where
  "initAll p = HeaderScroll_init (observeElements (FAQ_init (MobileMenu_init p)))"

text \<open>
  A page with a header (80px high) holding the menu trigger, its icon and the menu with
  one link to \<open>#section2\<close>; the section \<open>#section2\<close> 1000px down, holding three cards;
  a link to the bare \<open>#\<close>; and three FAQ questions, each followed by its answer.
\<close>

definition demoElement :: "node \<Rightarrow> element" where
  "demoElement n =
     (if n = 1 then blankElement\<lparr>tagName := ''header'', classList := {''header''},
                                 offsetHeight := 80\<rparr>
      else if n = 2 then blankElement\<lparr>tagName := ''button'',
                                 attributes := [''aria-expanded'' \<mapsto> ''false''],
                                 classList := {''mobile-menu-btn''}\<rparr>
      else if n = 3 then blankElement\<lparr>tagName := ''i'', classList := {''fas'', ''fa-bars''}\<rparr>
      else if n = 4 then blankElement\<lparr>tagName := ''nav'',
                                 attributes := [''id'' \<mapsto> ''mobile-menu'']\<rparr>
      else if n = 5 then blankElement\<lparr>tagName := ''a'',
                                 attributes := [''href'' \<mapsto> ''#section2''],
                                 classList := {''mobile-menu__link''}\<rparr>
      else if n = 6 then blankElement\<lparr>tagName := ''section'',
                                 attributes := [''id'' \<mapsto> ''section2''],
                                 classList := {''section''}, offsetTop := 1000\<rparr>
      else if n = 7 \<or> n = 8 \<or> n = 9 then blankElement\<lparr>classList := {''benefit-card''}\<rparr>
      else if n = 10 then blankElement\<lparr>tagName := ''a'', attributes := [''href'' \<mapsto> ''#'']\<rparr>
      else if n = 11 \<or> n = 13 \<or> n = 15 then
        blankElement\<lparr>tagName := ''button'', attributes := [''aria-expanded'' \<mapsto> ''false''],
                     classList := {''faq-item__question''}\<rparr>
      else if n = 12 \<or> n = 14 \<or> n = 16 then
        blankElement\<lparr>classList := {''faq-item__answer''}, scrollHeight := 120\<rparr>
      else blankElement)"

definition demoMarkup :: page where
  "demoMarkup =
     blankPage\<lparr>elems := demoElement,
       docOrder := [1, 2, 3, 4, 5, 6, 7, 8, 9, 10, 11, 12, 13, 14, 15, 16],
       descendants := (\<lambda>n. if n = 1 then [2, 3, 4, 5] else if n = 2 then [3]
                            else if n = 4 then [5] else if n = 6 then [7, 8, 9] else []),
       nextElementSibling := (\<lambda>n. if n = 1 then Some 6 else if n = 2 then Some 4
                            else if n = 6 then Some 10 else if n = 7 then Some 8
                            else if n = 8 then Some 9
                            else if 10 \<le> n \<and> n < 16 then Some (n + 1) else None)\<rparr>"

definition demoPage :: page where
  "demoPage = initAll demoMarkup"

text \<open>
  A page without the mobile menu and without a header: a link to \<open>#section2\<close>, the
  section \<open>#section2\<close> 1000px down, and one FAQ question that is the last child of its
  parent.
\<close>

definition bareElement :: "node \<Rightarrow> element" where
  "bareElement n =
     (if n = 1 then blankElement\<lparr>tagName := ''a'', attributes := [''href'' \<mapsto> ''#section2'']\<rparr>
      else if n = 2 then blankElement\<lparr>tagName := ''section'',
                                 attributes := [''id'' \<mapsto> ''section2''], offsetTop := 1000\<rparr>
      else if n = 3 then blankElement\<lparr>tagName := ''button'',
                                 classList := {''faq-item__question''}\<rparr>
      else blankElement)"

definition barePage :: page where
  "barePage = initAll (blankPage\<lparr>elems := bareElement, docOrder := [1, 2, 3]\<rparr>)"

text \<open>
  The demo page with the section \<open>#section2\<close> placed inside a positioned wrapper: the
  wrapper (element 17) lies 900px down the document and the section 100px down the
  wrapper, so the section is 1000px down the document.
\<close>

definition nestedElement :: "node \<Rightarrow> element" where
  "nestedElement n =
     (if n = 6 then (demoElement 6)\<lparr>offsetTop := 100, offsetParent := Some 17\<rparr>
      else if n = 17 then blankElement\<lparr>classList := {''wrapper''}, offsetTop := 900\<rparr>
      else demoElement n)"

definition nestedPage :: page where
  "nestedPage =
     initAll (demoMarkup\<lparr>elems := nestedElement,
       docOrder := [1, 2, 3, 4, 5, 17, 6, 7, 8, 9, 10, 11, 12, 13, 14, 15, 16],
       descendants := (\<lambda>n. if n = 17 then [6, 7, 8, 9] else descendants demoMarkup n),
       nextElementSibling := (\<lambda>n. if n = 1 then Some 17 else if n = 17 then Some 10
                                    else if n = 6 then None else nextElementSibling demoMarkup n)\<rparr>)"

subsection \<open>The store: updates of one element\<close>

lemma updElem_frame [simp]:
  "docOrder (updElem n f p) = docOrder p"
  "descendants (updElem n f p) = descendants p"
  "nextElementSibling (updElem n f p) = nextElementSibling p"
  "bodyOverflow (updElem n f p) = bodyOverflow p"
  "pageYOffset (updElem n f p) = pageYOffset p"
  "documentElementScrollTop (updElem n f p) = documentElementScrollTop p"
  "scrollToCalls (updElem n f p) = scrollToCalls p"
  "focusCalls (updElem n f p) = focusCalls p"
  "pushStateCalls (updElem n f p) = pushStateCalls p"
  "eventDefaultPrevented (updElem n f p) = eventDefaultPrevented p"
  "timers (updElem n f p) = timers p"
  "now (updElem n f p) = now p"
  "mobileMenuButton (updElem n f p) = mobileMenuButton p"
  "mobileMenu (updElem n f p) = mobileMenu p"
  "faqQuestions (updElem n f p) = faqQuestions p"
  "observed (updElem n f p) = observed p"
  "header (updElem n f p) = header p"
  "lastScrollTop (updElem n f p) = lastScrollTop p"
  by (simp_all add: updElem_def)

lemma elems_updElem [simp]:
  "elems (updElem n f p) m = (if m = n then f (elems p n) else elems p m)"
  by (simp add: updElem_def)


lemma updElem_id: "f (elems p n) = elems p n \<Longrightarrow> updElem n f p = p"
  by (simp add: updElem_def)


lemma updElem_bodyOverflow:
  "updElem n f (p\<lparr>bodyOverflow := v\<rparr>) = (updElem n f p)\<lparr>bodyOverflow := v\<rparr>"
  by (simp add: updElem_def)

lemma toggle_as_upd:
  "classList_toggle n c p =
     updElem n (\<lambda>e. e\<lparr>classList := (if c \<in> classList e then classList e - {c} else insert c (classList e))\<rparr>) p"
  by (simp add: updElem_def hasClass_def classList_add_def classList_remove_def classList_toggle_def)

subsection \<open>Reading after writing\<close>

lemma getAttribute_setAttribute [simp]:
  "getAttribute (setAttribute n k v p) m j = (if m = n \<and> j = k then Some v else getAttribute p m j)"
  by (simp add: getAttribute_def setAttribute_def)

lemma getAttribute_removeAttribute [simp]:
  "getAttribute (removeAttribute n k p) m j = (if m = n \<and> j = k then None else getAttribute p m j)"
  by (simp add: getAttribute_def removeAttribute_def)

lemma getAttribute_class [simp]:
  "getAttribute (classList_add n c p) m j = getAttribute p m j"
  "getAttribute (classList_remove n c p) m j = getAttribute p m j"
  "getAttribute (classList_toggle n c p) m j = getAttribute p m j"
  by (simp_all add: getAttribute_def classList_add_def classList_remove_def toggle_as_upd)

lemma hasClass_attr [simp]:
  "hasClass (setAttribute n k v p) m c = hasClass p m c"
  "hasClass (removeAttribute n k p) m c = hasClass p m c"
  by (simp_all add: hasClass_def setAttribute_def removeAttribute_def)

lemma hasClass_add [simp]:
  "hasClass (classList_add n c p) m d = ((m = n \<and> d = c) \<or> hasClass p m d)"
  by (simp add: hasClass_def classList_add_def)

lemma hasClass_remove [simp]:
  "hasClass (classList_remove n c p) m d = (\<not> (m = n \<and> d = c) \<and> hasClass p m d)"
  by (auto simp add: hasClass_def classList_remove_def)

lemma hasClass_toggle [simp]:
  "hasClass (classList_toggle n c p) m d =
     (if m = n \<and> d = c then \<not> hasClass p m d else hasClass p m d)"
  by (auto simp add: classList_toggle_def)

lemma tagName_ops [simp]:
  "tagName (elems (setAttribute n k v p) m) = tagName (elems p m)"
  "tagName (elems (removeAttribute n k p) m) = tagName (elems p m)"
  "tagName (elems (classList_add n c p) m) = tagName (elems p m)"
  "tagName (elems (classList_remove n c p) m) = tagName (elems p m)"
  "tagName (elems (classList_toggle n c p) m) = tagName (elems p m)"
  by (simp_all add: setAttribute_def removeAttribute_def classList_add_def classList_remove_def
        toggle_as_upd)

lemma firstWithTag_ops [simp]:
  "firstWithTag (setAttribute n k v p) ns t = firstWithTag p ns t"
  "firstWithTag (removeAttribute n k p) ns t = firstWithTag p ns t"
  "firstWithTag (classList_add n c p) ns t = firstWithTag p ns t"
  "firstWithTag (classList_remove n c p) ns t = firstWithTag p ns t"
  "firstWithTag (classList_toggle n c p) ns t = firstWithTag p ns t"
  by (simp_all add: firstWithTag_def)

lemma ops_frame [simp]:
  "descendants (setAttribute n k v p) = descendants p"
  "descendants (classList_add n c p) = descendants p"
  "descendants (classList_remove n c p) = descendants p"
  "descendants (classList_toggle n c p) = descendants p"
  "mobileMenuButton (setAttribute n k v p) = mobileMenuButton p"
  "mobileMenuButton (classList_add n c p) = mobileMenuButton p"
  "mobileMenuButton (classList_remove n c p) = mobileMenuButton p"
  "mobileMenuButton (classList_toggle n c p) = mobileMenuButton p"
  "mobileMenu (setAttribute n k v p) = mobileMenu p"
  "mobileMenu (classList_add n c p) = mobileMenu p"
  "mobileMenu (classList_remove n c p) = mobileMenu p"
  "mobileMenu (classList_toggle n c p) = mobileMenu p"
  "bodyOverflow (setAttribute n k v p) = bodyOverflow p"
  "bodyOverflow (classList_add n c p) = bodyOverflow p"
  "bodyOverflow (classList_remove n c p) = bodyOverflow p"
  "bodyOverflow (classList_toggle n c p) = bodyOverflow p"
  by (simp_all add: setAttribute_def classList_add_def classList_remove_def toggle_as_upd)

subsection \<open>Writes that change nothing, and writes that commute\<close>

lemma setAttribute_same: "getAttribute p n k = Some v \<Longrightarrow> setAttribute n k v p = p"
  by (simp add: setAttribute_def getAttribute_def updElem_id fun_upd_idem)


lemma classList_add_same: "hasClass p n c \<Longrightarrow> classList_add n c p = p"
  by (simp add: classList_add_def hasClass_def updElem_id insert_absorb)

lemma classList_remove_same: "\<not> hasClass p n c \<Longrightarrow> classList_remove n c p = p"
  by (simp add: classList_remove_def hasClass_def updElem_id)




lemma toggleIcon_frame [simp]:
  "mobileMenuButton (toggleIcon b p) = mobileMenuButton p"
  "mobileMenu (toggleIcon b p) = mobileMenu p"
  "bodyOverflow (toggleIcon b p) = bodyOverflow p"
  "getAttribute (toggleIcon b p) m j = getAttribute p m j"
  by (simp_all add: toggleIcon_def split: option.splits)







lemma getAttribute_bodyOverflow [simp]:
  "getAttribute (p\<lparr>bodyOverflow := w\<rparr>) n k = getAttribute p n k"
  "hasClass (p\<lparr>bodyOverflow := w\<rparr>) n c = hasClass p n c"
  by (simp_all add: getAttribute_def hasClass_def)

lemma toggleMenu_open:
  assumes "mobileMenuButton p = Some btn" "mobileMenu p = Some menu"
      and "getAttribute p btn ''aria-expanded'' \<noteq> Some ''true''"
  shows "toggleMenu p = Normal ((toggleIcon btn (classList_toggle menu ''active''
           (setAttribute btn ''aria-expanded'' ''true'' p)))\<lparr>bodyOverflow := ''hidden''\<rparr>)"
  using assms by (simp add: toggleMenu_def Let_def js_bool_def)


subsection \<open>closeMenu\<close>

lemma resetIcon_frame [simp]:
  "mobileMenuButton (resetIcon b p) = mobileMenuButton p"
  "mobileMenu (resetIcon b p) = mobileMenu p"
  "bodyOverflow (resetIcon b p) = bodyOverflow p"
  "descendants (resetIcon b p) = descendants p"
  "getAttribute (resetIcon b p) m j = getAttribute p m j"
  "firstWithTag (resetIcon b p) ns t = firstWithTag p ns t"
  by (simp_all add: resetIcon_def split: option.splits)

lemma hasClass_resetIcon:
  "c \<noteq> ''fa-bars'' \<Longrightarrow> c \<noteq> ''fa-times'' \<Longrightarrow> hasClass (resetIcon b p) m c = hasClass p m c"
  by (simp add: resetIcon_def split: option.splits)

lemma resetIcon_icon:
  "firstWithTag p (descendants p b) ''i'' = Some icon \<Longrightarrow>
     hasClass (resetIcon b p) icon ''fa-bars'' \<and> \<not> hasClass (resetIcon b p) icon ''fa-times''"
  by (simp add: resetIcon_def)

lemma closeMenu_present:
  assumes "mobileMenuButton p = Some btn" "mobileMenu p = Some menu"
  shows "closeMenu p = Normal ((resetIcon btn (classList_remove menu ''active''
           (setAttribute btn ''aria-expanded'' ''false'' p)))\<lparr>bodyOverflow := []\<rparr>)"
  using assms by (simp add: closeMenu_def Let_def)

lemma firstWithTag_bodyOverflow [simp]:
  "firstWithTag (p\<lparr>bodyOverflow := w\<rparr>) ns t = firstWithTag p ns t"
  by (simp add: firstWithTag_def)

lemma closeMenu_closes:
  assumes "mobileMenuButton p = Some btn" "mobileMenu p = Some menu"
  shows "menuClosed (stateOf (closeMenu p))"
proof -
  define q where "q = resetIcon btn (classList_remove menu ''active''
           (setAttribute btn ''aria-expanded'' ''false'' p))"
  have q: "stateOf (closeMenu p) = q\<lparr>bodyOverflow := []\<rparr>"
    by (simp add: closeMenu_present[OF assms] stateOf_def q_def)
  have bm: "mobileMenuButton q = Some btn" "mobileMenu q = Some menu"
    using assms by (simp_all add: q_def)
  have aria: "getAttribute q btn ''aria-expanded'' = Some ''false''"
    by (simp add: q_def)
  have act: "\<not> hasClass q menu ''active''"
    by (simp add: q_def hasClass_resetIcon)
  have icon: "hasClass q icon ''fa-bars'' \<and> \<not> hasClass q icon ''fa-times''"
    if "firstWithTag q (descendants q btn) ''i'' = Some icon" for icon
  proof -
    from that have "firstWithTag (classList_remove menu ''active''
           (setAttribute btn ''aria-expanded'' ''false'' p)) (descendants (classList_remove menu ''active''
           (setAttribute btn ''aria-expanded'' ''false'' p)) btn) ''i'' = Some icon"
      by (simp add: q_def)
    then show ?thesis unfolding q_def by (rule resetIcon_icon)
  qed
  show ?thesis
    unfolding q menuClosed_def using bm aria act icon
    by (simp split: option.splits)
qed

lemma closeMenu_on_closed:
  assumes "menuClosed p"
  shows "closeMenu p = Normal p"
proof -
  from assms obtain btn menu where bm: "mobileMenuButton p = Some btn" "mobileMenu p = Some menu"
    by (auto simp: menuClosed_def split: option.splits)
  from assms bm have aria: "getAttribute p btn ''aria-expanded'' = Some ''false''"
    and act: "\<not> hasClass p menu ''active''" and ov: "bodyOverflow p = []"
    and icon: "\<And>icon. firstWithTag p (descendants p btn) ''i'' = Some icon \<Longrightarrow>
                 hasClass p icon ''fa-bars'' \<and> \<not> hasClass p icon ''fa-times''"
    by (auto simp: menuClosed_def split: option.splits)
  have r: "resetIcon btn p = p"
    using icon by (auto simp: resetIcon_def classList_add_same classList_remove_same
        split: option.splits)
  show ?thesis
    using ov by (simp add: closeMenu_present[OF bm] setAttribute_same[OF aria]
        classList_remove_same[OF act] r)
qed


subsection \<open>The demo page after initialisation\<close>

lemma demoPage_fields:
  "mobileMenuButton demoPage = Some 2"
  "mobileMenu demoPage = Some 4"
  "faqQuestions demoPage = [11, 13, 15]"
  "header demoPage = Some 1"
  "bodyOverflow demoPage = []"
  "docOrder demoPage = docOrder demoMarkup"
  "descendants demoPage = descendants demoMarkup"
  "nextElementSibling demoPage = nextElementSibling demoMarkup"
  "elems demoPage = demoElement"
  "timers demoPage = []"
  "now demoPage = 0"
  "scrollToCalls demoPage = []"
  by (simp_all add: demoPage_def initAll_def HeaderScroll_init_def observeElements_def
      FAQ_init_def MobileMenu_init_def demoMarkup_def blankPage_def firstWithClass_def
      getElementById_def getAttribute_def hasClass_def demoElement_def blankElement_def)


lemma demoPage_menu:
  "getAttribute demoPage 2 ''aria-expanded'' = Some ''false''"
  "\<not> hasClass demoPage 4 ''active''"
  by (simp_all add: getAttribute_def hasClass_def demoPage_fields demoElement_def blankElement_def)




text \<open>
  C10. \<open>closeMenu\<close> is idempotent. Where the trigger and the container exist (the
  condition under which \<open>init\<close> binds the listeners), one call ends in the closed
  configuration (\<open>aria-expanded="false"\<close>, no \<open>active\<close> on the container, the icon with
  \<open>fa-bars\<close> and without \<open>fa-times\<close>, the body's overflow restored), and every further
  call leaves that page as it is: by any number of calls in a row, by a document click
  on any target, and by the Escape key.
\<close>

theorem closeMenu_idempotent:
  assumes "MobileMenu_bound p"
  shows "\<exists>q. closeMenu p = Normal q \<and> menuClosed q \<and> closeMenu q = Normal q \<and>
           (\<forall>n. invokeTimes (Suc n) closeMenu p = Normal q) \<and>
           (\<forall>tgt. MobileMenu_onDocumentClick tgt q = Normal q) \<and>
           MobileMenu_onKeydown ''Escape'' q = Normal q"
proof -
  from assms obtain btn menu where bm: "mobileMenuButton p = Some btn" "mobileMenu p = Some menu"
    by (auto simp: MobileMenu_bound_def)
  define q where "q = stateOf (closeMenu p)"
  have run: "closeMenu p = Normal q"
    by (simp add: q_def closeMenu_present[OF bm] stateOf_def)
  have closed: "menuClosed q"
    unfolding q_def using bm by (rule closeMenu_closes)
  then have again: "closeMenu q = Normal q"
    by (rule closeMenu_on_closed)
  have rest: "invokeTimes n closeMenu q = Normal q" for n
    by (induction n) (simp_all add: again andThen_def)
  have many: "invokeTimes (Suc n) closeMenu p = Normal q" for n
    by (simp add: run andThen_def rest)
  have click: "MobileMenu_onDocumentClick tgt q = Normal q" for tgt
    by (simp add: MobileMenu_onDocumentClick_def again split: option.splits)
  have key: "MobileMenu_onKeydown ''Escape'' q = Normal q"
    by (simp add: MobileMenu_onKeydown_def again)
  from run closed again many click key show ?thesis by blast
qed

theorem closeMenu_idempotent_witness:
  "MobileMenu_bound (stateOf (toggleMenu demoPage)) \<and>
   \<not> menuClosed (stateOf (toggleMenu demoPage)) \<and>
   (\<exists>q. closeMenu (stateOf (toggleMenu demoPage)) = Normal q \<and> menuClosed q \<and>
      closeMenu q = Normal q \<and>
      invokeTimes 3 closeMenu (stateOf (toggleMenu demoPage)) = Normal q \<and>
      MobileMenu_onDocumentClick 6 q = Normal q \<and>
      MobileMenu_onKeydown ''Escape'' q = Normal q)"
proof -
  have t: "toggleMenu demoPage = Normal ((toggleIcon 2 (classList_toggle 4 ''active''
           (setAttribute 2 ''aria-expanded'' ''true'' demoPage)))\<lparr>bodyOverflow := ''hidden''\<rparr>)"
    by (rule toggleMenu_open) (simp_all add: demoPage_fields demoPage_menu)
  have b: "MobileMenu_bound (stateOf (toggleMenu demoPage))"
    by (simp add: t stateOf_def MobileMenu_bound_def demoPage_fields)
  have o: "\<not> menuClosed (stateOf (toggleMenu demoPage))"
    by (simp add: t stateOf_def menuClosed_def demoPage_fields)
  from closeMenu_idempotent [OF b] obtain q where
    "closeMenu (stateOf (toggleMenu demoPage)) = Normal q" "menuClosed q" "closeMenu q = Normal q"
    "\<forall>n. invokeTimes (Suc n) closeMenu (stateOf (toggleMenu demoPage)) = Normal q"
    "\<forall>tgt. MobileMenu_onDocumentClick tgt q = Normal q"
    "MobileMenu_onKeydown ''Escape'' q = Normal q"
    by blast
  moreover from this have "invokeTimes 3 closeMenu (stateOf (toggleMenu demoPage)) = Normal q"
    by (simp add: numeral_3_eq_3)
  ultimately show ?thesis using b o by blast
qed

subsection \<open>FAQ\<close>

lemma animateHeight_frame [simp]:
  "getAttribute (animateHeight a b p) m j = getAttribute p m j"
  "hasClass (animateHeight a b p) m c = hasClass p m c"
  "nextElementSibling (animateHeight a b p) = nextElementSibling p"
  "faqQuestions (animateHeight a b p) = faqQuestions p"
  by (simp_all add: animateHeight_def getAttribute_def hasClass_def)

lemma ops_faq_frame [simp]:
  "nextElementSibling (setAttribute n k v p) = nextElementSibling p"
  "nextElementSibling (classList_add n c p) = nextElementSibling p"
  "nextElementSibling (classList_remove n c p) = nextElementSibling p"
  "faqQuestions (setAttribute n k v p) = faqQuestions p"
  "faqQuestions (classList_add n c p) = faqQuestions p"
  "faqQuestions (classList_remove n c p) = faqQuestions p"
  by (simp_all add: setAttribute_def classList_add_def classList_remove_def)

lemma prevented_frame [simp]:
  "getAttribute (p\<lparr>eventDefaultPrevented := b\<rparr>) m j = getAttribute p m j"
  "hasClass (p\<lparr>eventDefaultPrevented := b\<rparr>) m c = hasClass p m c"
  by (simp_all add: getAttribute_def hasClass_def)

lemma expanded_prevented [simp]:
  "expanded (p\<lparr>eventDefaultPrevented := b\<rparr>) = expanded p"
  by (simp add: expanded_def fun_eq_iff split: option.splits)

lemma expandedQuestions_prevented [simp]:
  "expandedQuestions (p\<lparr>eventDefaultPrevented := b\<rparr>) = expandedQuestions p"
  by (simp add: expandedQuestions_def)

lemma everyQuestionHasAnswer_prevented [simp]:
  "everyQuestionHasAnswer (p\<lparr>eventDefaultPrevented := b\<rparr>) = everyQuestionHasAnswer p"
  by (simp add: everyQuestionHasAnswer_def)

lemma closeFAQ_answered:
  assumes "nextElementSibling p q = Some a"
  shows "closeFAQ q p = Normal (animateHeight a False (classList_remove a ''active''
           (classList_remove q ''active'' (setAttribute q ''aria-expanded'' ''false'' p))))"
  using assms by (simp add: closeFAQ_def Let_def)

text \<open>With an answer behind every question the loop of \<open>closeAllFAQs\<close> completes; it
  leaves the tree alone and resets \<open>aria-expanded\<close> on exactly the questions it visits.\<close>

lemma forEach_closeFAQ:
  assumes "list_all (\<lambda>q. nextElementSibling p q \<noteq> None) qs"
  shows "\<exists>p'. forEach closeFAQ qs p = Normal p' \<and>
           nextElementSibling p' = nextElementSibling p \<and>
           faqQuestions p' = faqQuestions p \<and>
           (\<forall>x. getAttribute p' x ''aria-expanded'' =
                  (if x \<in> set qs then Some ''false'' else getAttribute p x ''aria-expanded''))"
  using assms
proof (induction qs arbitrary: p)
  case Nil
  then show ?case by simp
next
  case (Cons q qs)
  from Cons.prems obtain a where a: "nextElementSibling p q = Some a"
    and rest: "list_all (\<lambda>q. nextElementSibling p q \<noteq> None) qs"
    by auto
  define p1 where "p1 = animateHeight a False (classList_remove a ''active''
           (classList_remove q ''active'' (setAttribute q ''aria-expanded'' ''false'' p)))"
  have step: "closeFAQ q p = Normal p1"
    unfolding p1_def using a by (rule closeFAQ_answered)
  have nes: "nextElementSibling p1 = nextElementSibling p"
    and fq: "faqQuestions p1 = faqQuestions p"
    and attr: "\<And>x. getAttribute p1 x ''aria-expanded'' =
                 (if x = q then Some ''false'' else getAttribute p x ''aria-expanded'')"
    by (simp_all add: p1_def)
  from rest nes have "list_all (\<lambda>q. nextElementSibling p1 q \<noteq> None) qs"
    by simp
  from Cons.IH[OF this] obtain p' where
    run: "forEach closeFAQ qs p1 = Normal p'"
    and nes': "nextElementSibling p' = nextElementSibling p1"
    and fq': "faqQuestions p' = faqQuestions p1"
    and attr': "\<And>x. getAttribute p' x ''aria-expanded'' =
                  (if x \<in> set qs then Some ''false'' else getAttribute p1 x ''aria-expanded'')"
    by blast
  have "forEach closeFAQ (q # qs) p = Normal p'"
    by (simp add: step andThen_def run)
  moreover have "getAttribute p' x ''aria-expanded'' =
      (if x \<in> set (q # qs) then Some ''false'' else getAttribute p x ''aria-expanded'')" for x
    by (simp add: attr' attr)
  ultimately show ?case using nes nes' fq fq' by auto
qed

lemma closeAllFAQs_contract:
  assumes "everyQuestionHasAnswer p"
  shows "\<exists>p'. closeAllFAQs p = Normal p' \<and>
           nextElementSibling p' = nextElementSibling p \<and>
           faqQuestions p' = faqQuestions p \<and>
           (\<forall>x. getAttribute p' x ''aria-expanded'' =
                  (if x \<in> set (faqQuestions p) then Some ''false''
                   else getAttribute p x ''aria-expanded''))"
  using assms forEach_closeFAQ[of p "faqQuestions p"]
  by (simp add: closeAllFAQs_def everyQuestionHasAnswer_def)

lemma expandedQuestions_none:
  assumes "\<And>x. x \<in> set (faqQuestions p) \<Longrightarrow> getAttribute p x ''aria-expanded'' \<noteq> Some ''true''"
  shows "expandedQuestions p = []"
  using assms by (auto simp: expandedQuestions_def expanded_def filter_empty_conv)

lemma expandedQuestions_only:
  assumes "\<And>x. x \<in> set (faqQuestions p) \<Longrightarrow> x \<noteq> q \<Longrightarrow>
             getAttribute p x ''aria-expanded'' \<noteq> Some ''true''"
  shows "length (expandedQuestions p) \<le> 1"
proof -
  have d: "distinct (expandedQuestions p)"
    by (simp add: expandedQuestions_def)
  have "set (expandedQuestions p) \<subseteq> {q}"
    using assms by (auto simp: expandedQuestions_def expanded_def)
  then have "card (set (expandedQuestions p)) \<le> card {q}"
    by (intro card_mono) simp_all
  with d show ?thesis by (simp add: distinct_card)
qed

lemma toggleFAQ_contract:
  assumes contract: "everyQuestionHasAnswer p" and q: "q \<in> set (faqQuestions p)"
  shows "\<exists>p'. toggleFAQ q p = Normal p' \<and> everyQuestionHasAnswer p' \<and>
           faqQuestions p' = faqQuestions p \<and>
           length (expandedQuestions p') \<le> 1 \<and>
           (getAttribute p q ''aria-expanded'' = Some ''true'' \<longrightarrow> expandedQuestions p' = []) \<and>
           (getAttribute p q ''aria-expanded'' \<noteq> Some ''true'' \<longrightarrow> expandedQuestions p' = [q])"
proof -
  from closeAllFAQs_contract[OF contract] obtain p1 where
    run: "closeAllFAQs p = Normal p1"
    and nes: "nextElementSibling p1 = nextElementSibling p"
    and fq: "faqQuestions p1 = faqQuestions p"
    and attr: "\<And>x. getAttribute p1 x ''aria-expanded'' =
                  (if x \<in> set (faqQuestions p) then Some ''false''
                   else getAttribute p x ''aria-expanded'')"
    by blast
  from contract q obtain a where a: "nextElementSibling p q = Some a"
    by (auto simp: everyQuestionHasAnswer_def list_all_iff)
  have c1: "everyQuestionHasAnswer p1"
    using contract by (simp add: everyQuestionHasAnswer_def nes fq)
  show ?thesis
  proof (cases "getAttribute p q ''aria-expanded'' = Some ''true''")
    case True
    then have "toggleFAQ q p = Normal p1"
      by (simp add: toggleFAQ_def Let_def run andThen_def)
    moreover have "expandedQuestions p1 = []"
      by (rule expandedQuestions_none) (simp add: fq attr)
    ultimately show ?thesis using c1 fq True by simp
  next
    case False
    define p' where "p' = animateHeight a True (classList_add a ''active''
        (classList_add q ''active'' (setAttribute q ''aria-expanded'' ''true'' p1)))"
    have t: "toggleFAQ q p = Normal p'"
      using False by (simp add: toggleFAQ_def Let_def run andThen_def a p'_def)
    have nes': "nextElementSibling p' = nextElementSibling p"
      and fq': "faqQuestions p' = faqQuestions p"
      by (simp_all add: p'_def nes fq)
    have c': "everyQuestionHasAnswer p'"
      using contract by (simp add: everyQuestionHasAnswer_def nes' fq')
    have others: "getAttribute p' x ''aria-expanded'' \<noteq> Some ''true''"
      if "x \<in> set (faqQuestions p')" "x \<noteq> q" for x
      using that unfolding fq' by (simp add: p'_def attr)
    then have le: "length (expandedQuestions p') \<le> 1"
      by (rule expandedQuestions_only)
    have eq: "expanded p' q"
      by (simp add: expanded_def nes' a) (simp add: p'_def)
    have "set (expandedQuestions p') = {q}"
      using others eq q by (auto simp: expandedQuestions_def fq' expanded_def)
    moreover have "distinct (expandedQuestions p')"
      by (simp add: expandedQuestions_def)
    ultimately have "expandedQuestions p' = [q]"
      by (metis distinct_singleton empty_iff empty_set insert_iff list.exhaust list.set_intros(1) list.set_intros(2) distinct.simps(2) singletonD)
    with t c' fq' le False show ?thesis by simp
  qed
qed


text \<open>Without the contract: closing never expands anything, whether the loop
  completes or throws on the way, and it completes only if every question it visits has
  an answer.\<close>

lemma closeFAQ_shrinks:
  "nextElementSibling (stateOf (closeFAQ q p)) = nextElementSibling p \<and>
   faqQuestions (stateOf (closeFAQ q p)) = faqQuestions p \<and>
   (expanded (stateOf (closeFAQ q p)) x \<longrightarrow> expanded p x)"
  by (cases "nextElementSibling p q")
     (auto simp: closeFAQ_def Let_def stateOf_def expanded_def split: option.splits if_splits)

lemma forEach_closeFAQ_shrinks:
  "nextElementSibling (stateOf (forEach closeFAQ qs p)) = nextElementSibling p \<and>
   faqQuestions (stateOf (forEach closeFAQ qs p)) = faqQuestions p \<and>
   (expanded (stateOf (forEach closeFAQ qs p)) x \<longrightarrow> expanded p x)"
proof (induction qs arbitrary: p)
  case Nil
  show ?case by (simp add: stateOf_def)
next
  case (Cons q qs)
  show ?case
  proof (cases "closeFAQ q p")
    case (Normal p1)
    then have "stateOf (forEach closeFAQ (q # qs) p) = stateOf (forEach closeFAQ qs p1)"
      by (simp add: andThen_def)
    moreover from Normal have "p1 = stateOf (closeFAQ q p)"
      by (simp add: stateOf_def)
    ultimately show ?thesis
      using Cons.IH[of p1] closeFAQ_shrinks[of q p x] by simp
  next
    case (Throw e s)
    then have "stateOf (forEach closeFAQ (q # qs) p) = stateOf (closeFAQ q p)"
      by (simp add: andThen_def stateOf_def)
    then show ?thesis
      using closeFAQ_shrinks[of q p x] by simp
  qed
qed

lemma forEach_closeFAQ_Normal:
  assumes "forEach closeFAQ qs p = Normal p'"
  shows "list_all (\<lambda>q. nextElementSibling p q \<noteq> None) qs"
  using assms
proof (induction qs arbitrary: p)
  case Nil
  show ?case by simp
next
  case (Cons q qs)
  from Cons.prems obtain p1 where step: "closeFAQ q p = Normal p1"
    and rest: "forEach closeFAQ qs p1 = Normal p'"
    by (cases "closeFAQ q p") (simp_all add: andThen_def)
  from step have a: "nextElementSibling p q \<noteq> None"
    by (auto simp: closeFAQ_def Let_def split: option.splits)
  from step have "p1 = stateOf (closeFAQ q p)"
    by (simp add: stateOf_def)
  then have "nextElementSibling p1 = nextElementSibling p"
    using closeFAQ_shrinks[of q p] by simp
  with Cons.IH[OF rest] a show ?case by simp
qed

lemma length_filter_mono:
  assumes "\<And>x. x \<in> set xs \<Longrightarrow> P x \<Longrightarrow> Q x"
  shows "length (filter P xs) \<le> length (filter Q xs)"
  using assms
proof (induction xs)
  case Nil
  show ?case by simp
next
  case (Cons x xs)
  then have "length (filter P xs) \<le> length (filter Q xs)" by simp
  with Cons.prems[of x] show ?case by auto
qed

lemma toggleFAQ_invariant:
  assumes "length (expandedQuestions p) \<le> 1" and "q \<in> set (faqQuestions p)"
  shows "length (expandedQuestions (stateOf (toggleFAQ q p))) \<le> 1"
proof (cases "everyQuestionHasAnswer p")
  case True
  from toggleFAQ_contract[OF True assms(2)] show ?thesis
    by (auto simp: stateOf_def)
next
  case False
  have "\<exists>e s. closeAllFAQs p = Throw e s"
  proof (cases "closeAllFAQs p")
    case (Normal p')
    then have "everyQuestionHasAnswer p"
      unfolding closeAllFAQs_def everyQuestionHasAnswer_def by (rule forEach_closeFAQ_Normal)
    with False show ?thesis by simp
  next
    case (Throw e s)
    then show ?thesis by blast
  qed
  then obtain e s where t: "closeAllFAQs p = Throw e s" by blast
  then have st: "stateOf (toggleFAQ q p) = stateOf (closeAllFAQs p)"
    by (simp add: toggleFAQ_def Let_def andThen_def stateOf_def)
  have "faqQuestions (stateOf (closeAllFAQs p)) = faqQuestions p"
    and "\<And>x. expanded (stateOf (closeAllFAQs p)) x \<Longrightarrow> expanded p x"
    unfolding closeAllFAQs_def using forEach_closeFAQ_shrinks[of "faqQuestions p" p] by blast+
  then have "length (expandedQuestions (stateOf (closeAllFAQs p))) \<le> length (expandedQuestions p)"
    unfolding expandedQuestions_def by (simp add: length_filter_mono)
  with assms(1) st show ?thesis by simp
qed

lemma FAQ_handle_invariant:
  assumes "length (expandedQuestions p) \<le> 1"
  shows "length (expandedQuestions (stateOf (FAQ_handle ev p))) \<le> 1"
proof -
  have toggled: "length (expandedQuestions (stateOf (toggleFAQ q (p\<lparr>eventDefaultPrevented := True\<rparr>)))) \<le> 1"
    if "q \<in> set (faqQuestions p)" for q
    using assms that by (intro toggleFAQ_invariant) simp_all
  show ?thesis
  proof (cases ev)
    case (QuestionClick q)
    then show ?thesis using assms toggled[of q] by (simp add: FAQ_handle_def stateOf_def)
  next
    case (QuestionKeydown q key)
    then show ?thesis using assms toggled[of q] by (simp add: FAQ_handle_def stateOf_def)
  qed
qed

lemma FAQ_trace_invariant:
  assumes "length (expandedQuestions p) \<le> 1"
  shows "list_all (\<lambda>s. length (expandedQuestions s) \<le> 1)
           (trace (\<lambda>ev s. stateOf (FAQ_handle ev s)) evs p)"
  using assms
proof (induction evs arbitrary: p)
  case Nil
  then show ?case by simp
next
  case (Cons ev evs)
  from FAQ_handle_invariant[OF Cons.prems, of ev] Cons.IH Cons.prems
  show ?case by simp
qed

lemma demoPage_faq:
  "everyQuestionHasAnswer demoPage"
  "expandedQuestions demoPage = []"
  "getAttribute demoPage 13 ''aria-expanded'' \<noteq> Some ''true''"
  by (simp_all add: everyQuestionHasAnswer_def expandedQuestions_def expanded_def
        getAttribute_def demoPage_fields demoMarkup_def demoElement_def blankElement_def)

text \<open>
  C1. For every sequence of clicks and key presses on FAQ questions, at most one
  question/answer pair is expanded (\<open>aria-expanded="true"\<close> with \<open>active\<close> on question and
  answer) at any time, and a click on a question that is expanded leaves none expanded.
  First conjunct, on every page: if at most one pair is expanded at the start, so it is
  in every page the run goes through. Second conjunct, on a page where every question is
  followed by its answer element: a click on any question, whatever was expanded before,
  completes with at most one pair expanded, and with none if the clicked question had
  \<open>aria-expanded="true"\<close> (as an expanded one has); Enter and Space do what the click
  does.
\<close>

theorem faq_at_most_one_expanded:
  "(length (expandedQuestions p) \<le> 1 \<longrightarrow>
      list_all (\<lambda>s. length (expandedQuestions s) \<le> 1)
        (trace (\<lambda>ev s. stateOf (FAQ_handle ev s)) evs p)) \<and>
   (everyQuestionHasAnswer p \<longrightarrow>
      (\<forall>q \<in> set (faqQuestions p).
         (\<exists>p'. FAQ_handle (QuestionClick q) p = Normal p' \<and>
            length (expandedQuestions p') \<le> 1 \<and>
            (getAttribute p q ''aria-expanded'' = Some ''true'' \<longrightarrow> expandedQuestions p' = [])) \<and>
         FAQ_handle (QuestionKeydown q ''Enter'') p = FAQ_handle (QuestionClick q) p \<and>
         FAQ_handle (QuestionKeydown q '' '') p = FAQ_handle (QuestionClick q) p))"
proof (intro conjI impI ballI)
  assume "length (expandedQuestions p) \<le> 1"
  then show "list_all (\<lambda>s. length (expandedQuestions s) \<le> 1)
              (trace (\<lambda>ev s. stateOf (FAQ_handle ev s)) evs p)"
    by (rule FAQ_trace_invariant)
next
  fix q assume c: "everyQuestionHasAnswer p" and q: "q \<in> set (faqQuestions p)"
  have "everyQuestionHasAnswer (p\<lparr>eventDefaultPrevented := True\<rparr>)"
    using c by simp
  moreover have "q \<in> set (faqQuestions (p\<lparr>eventDefaultPrevented := True\<rparr>))"
    using q by simp
  ultimately obtain p' where "toggleFAQ q (p\<lparr>eventDefaultPrevented := True\<rparr>) = Normal p'"
    "length (expandedQuestions p') \<le> 1"
    "getAttribute (p\<lparr>eventDefaultPrevented := True\<rparr>) q ''aria-expanded'' = Some ''true''
       \<longrightarrow> expandedQuestions p' = []"
    using toggleFAQ_contract by blast
  then show "\<exists>p'. FAQ_handle (QuestionClick q) p = Normal p' \<and>
               length (expandedQuestions p') \<le> 1 \<and>
               (getAttribute p q ''aria-expanded'' = Some ''true'' \<longrightarrow> expandedQuestions p' = [])"
    using q by (simp add: FAQ_handle_def)
next
  fix q assume "q \<in> set (faqQuestions p)"
  then show "FAQ_handle (QuestionKeydown q ''Enter'') p = FAQ_handle (QuestionClick q) p"
    by (simp add: FAQ_handle_def)
next
  fix q assume "q \<in> set (faqQuestions p)"
  then show "FAQ_handle (QuestionKeydown q '' '') p = FAQ_handle (QuestionClick q) p"
    by (simp add: FAQ_handle_def)
qed

theorem faq_at_most_one_expanded_witness:
  "(let P = stateOf (FAQ_handle (QuestionClick 13) demoPage)
    in everyQuestionHasAnswer P \<and> expandedQuestions P = [13] \<and>
       13 \<in> set (faqQuestions P) \<and>
       getAttribute P 13 ''aria-expanded'' = Some ''true'' \<and>
       list_all (\<lambda>s. length (expandedQuestions s) \<le> 1)
         (trace (\<lambda>ev s. stateOf (FAQ_handle ev s))
            [QuestionClick 11, QuestionKeydown 15 ''Enter'', QuestionClick 15] P) \<and>
       (\<exists>p'. FAQ_handle (QuestionClick 13) P = Normal p' \<and> expandedQuestions p' = []))"
proof -
  define P where "P = stateOf (FAQ_handle (QuestionClick 13) demoPage)"
  have h: "FAQ_handle (QuestionClick 13) demoPage =
             toggleFAQ 13 (demoPage\<lparr>eventDefaultPrevented := True\<rparr>)"
    by (simp add: FAQ_handle_def demoPage_fields)
  have "everyQuestionHasAnswer (demoPage\<lparr>eventDefaultPrevented := True\<rparr>)"
    "13 \<in> set (faqQuestions (demoPage\<lparr>eventDefaultPrevented := True\<rparr>))"
    "getAttribute (demoPage\<lparr>eventDefaultPrevented := True\<rparr>) 13 ''aria-expanded'' \<noteq> Some ''true''"
    by (simp_all add: demoPage_faq demoPage_fields)
  from toggleFAQ_contract[OF this(1,2)] this(3) obtain p' where
    p': "toggleFAQ 13 (demoPage\<lparr>eventDefaultPrevented := True\<rparr>) = Normal p'"
    "everyQuestionHasAnswer p'" "faqQuestions p' = faqQuestions (demoPage\<lparr>eventDefaultPrevented := True\<rparr>)"
    "expandedQuestions p' = [13]"
    by blast
  have P: "P = p'" by (simp add: P_def h p'(1) stateOf_def)
  have c: "everyQuestionHasAnswer P" and e: "expandedQuestions P = [13]"
    and m: "13 \<in> set (faqQuestions P)"
    using p' by (simp_all add: P demoPage_fields)
  from e have "13 \<in> set (expandedQuestions P)" by simp
  then have a: "getAttribute P 13 ''aria-expanded'' = Some ''true''"
    by (simp add: expandedQuestions_def expanded_def)
  from e have one: "length (expandedQuestions P) \<le> 1" by simp
  from faq_at_most_one_expanded [of P "[QuestionClick 11, QuestionKeydown 15 ''Enter'', QuestionClick 15]"]
    c one m a
  have "list_all (\<lambda>s. length (expandedQuestions s) \<le> 1)
         (trace (\<lambda>ev s. stateOf (FAQ_handle ev s))
            [QuestionClick 11, QuestionKeydown 15 ''Enter'', QuestionClick 15] P) \<and>
       (\<exists>p'. FAQ_handle (QuestionClick 13) P = Normal p' \<and> expandedQuestions p' = [])"
    by blast
  with c e m a show ?thesis
    unfolding P_def Let_def by blast
qed

subsection \<open>SmoothScrolling\<close>

lemma querySelector_prevented [simp]:
  "querySelector other (p\<lparr>eventDefaultPrevented := b\<rparr>) sel = querySelector other p sel"
  by (simp add: querySelector_def getElementById_def)

lemma barePage_fields:
  "mobileMenuButton barePage = None"
  "mobileMenu barePage = None"
  "faqQuestions barePage = [3]"
  "header barePage = None"
  "docOrder barePage = [1, 2, 3]"
  "nextElementSibling barePage = (\<lambda>n. None)"
  "elems barePage = bareElement"
  by (simp_all add: barePage_def initAll_def HeaderScroll_init_def observeElements_def
      FAQ_init_def MobileMenu_init_def blankPage_def firstWithClass_def
      getElementById_def getAttribute_def hasClass_def bareElement_def blankElement_def)

lemma isName_section2: "isName ''section2''"
  by (simp add: isName_def isNameStart_def isNameChar_def)

lemma barePage_target:
  "getAttribute barePage 1 ''href'' = Some ''#section2''"
  "querySelector other barePage ''#section2'' = Inr (Some 2)"
  by (simp_all add: querySelector_def isName_section2 getElementById_def getAttribute_def
      barePage_fields bareElement_def blankElement_def)

lemma demoPage_target:
  "getAttribute demoPage 5 ''href'' = Some ''#section2''"
  "getAttribute demoPage 10 ''href'' = Some ''#''"
  "querySelector other demoPage ''#section2'' = Inr (Some 6)"
  "querySelector other demoPage ''#'' = Inl SyntaxError"
  by (simp_all add: querySelector_def isName_section2 getElementById_def getAttribute_def
      demoPage_fields demoMarkup_def demoElement_def blankElement_def)

text \<open>
  C2. On a page without the mobile-menu trigger, a click on a link whose target exists
  throws a \<open>TypeError\<close> (from \<open>closeMenu\<close>, which reads \<open>this.mobileMenuButton\<close>
  unguarded) and nothing is scrolled; and a click on an FAQ question without a next
  element sibling throws a \<open>TypeError\<close> (from \<open>closeAllFAQs\<close>), after the question's
  own attribute and class have been reset.
\<close>

theorem missing_element_throws:
  "handleAnchorClick other 1 barePage = Throw TypeError (barePage\<lparr>eventDefaultPrevented := True\<rparr>) \<and>
   FAQ_handle (QuestionClick 3) barePage =
     Throw TypeError (classList_remove 3 ''active'' (setAttribute 3 ''aria-expanded'' ''false''
       (barePage\<lparr>eventDefaultPrevented := True\<rparr>)))"
proof
  show "handleAnchorClick other 1 barePage = Throw TypeError (barePage\<lparr>eventDefaultPrevented := True\<rparr>)"
    by (simp add: handleAnchorClick_def Let_def barePage_target js_string_def closeMenu_def
        andThen_def barePage_fields del: One_nat_def)
  show "FAQ_handle (QuestionClick 3) barePage =
     Throw TypeError (classList_remove 3 ''active'' (setAttribute 3 ''aria-expanded'' ''false''
       (barePage\<lparr>eventDefaultPrevented := True\<rparr>)))"
    by (simp add: FAQ_handle_def toggleFAQ_def closeAllFAQs_def closeFAQ_def Let_def
        andThen_def barePage_fields)
qed

text \<open>
  C3. A click on a link to the bare fragment \<open>#\<close> suppresses the default navigation
  and then throws: \<open>document.querySelector('#')\<close> raises a \<open>SyntaxError\<close>.
\<close>

theorem bare_hash_throws:
  "handleAnchorClick other 10 demoPage = Throw SyntaxError (demoPage\<lparr>eventDefaultPrevented := True\<rparr>)"
  by (simp add: handleAnchorClick_def Let_def demoPage_target js_string_def)

text \<open>Where the selector is well formed and selects nothing, the handler does suppress
  the navigation and nothing else.\<close>

lemma unresolved_fragment_noop:
  assumes "querySelector other p (js_string (getAttribute p anchor ''href'')) = Inr None"
  shows "handleAnchorClick other anchor p = Normal (p\<lparr>eventDefaultPrevented := True\<rparr>)"
  using assms by (simp add: handleAnchorClick_def Let_def)

lemma unknown_id_noop:
  assumes "getAttribute p anchor ''href'' = Some (CHR ''#'' # name)" and "isName name"
      and "getElementById p name = None"
  shows "handleAnchorClick other anchor p = Normal (p\<lparr>eventDefaultPrevented := True\<rparr>)"
proof -
  from assms(2) have "name \<noteq> []" by (auto simp: isName_def)
  with assms show ?thesis
    by (intro unresolved_fragment_noop) (simp add: js_string_def querySelector_def)
qed


lemma layout_ops [simp]:
  "offsetTop (elems (setAttribute n k v p) m) = offsetTop (elems p m)"
  "offsetTop (elems (classList_add n c p) m) = offsetTop (elems p m)"
  "offsetTop (elems (classList_remove n c p) m) = offsetTop (elems p m)"
  "offsetHeight (elems (setAttribute n k v p) m) = offsetHeight (elems p m)"
  "offsetHeight (elems (classList_add n c p) m) = offsetHeight (elems p m)"
  "offsetHeight (elems (classList_remove n c p) m) = offsetHeight (elems p m)"
  by (simp_all add: setAttribute_def classList_add_def classList_remove_def)

lemma log_ops [simp]:
  "scrollToCalls (setAttribute n k v p) = scrollToCalls p"
  "scrollToCalls (classList_add n c p) = scrollToCalls p"
  "scrollToCalls (classList_remove n c p) = scrollToCalls p"
  "docOrder (setAttribute n k v p) = docOrder p"
  "docOrder (classList_add n c p) = docOrder p"
  "docOrder (classList_remove n c p) = docOrder p"
  by (simp_all add: setAttribute_def classList_add_def classList_remove_def)

lemma resetIcon_layout [simp]:
  "offsetTop (elems (resetIcon b p) m) = offsetTop (elems p m)"
  "offsetHeight (elems (resetIcon b p) m) = offsetHeight (elems p m)"
  "scrollToCalls (resetIcon b p) = scrollToCalls p"
  "docOrder (resetIcon b p) = docOrder p"
  by (simp_all add: resetIcon_def split: option.splits)

lemma headerHeight_cong:
  assumes "docOrder q = docOrder p"
      and "\<And>n. hasClass q n ''header'' = hasClass p n ''header''"
      and "\<And>n. offsetHeight (elems q n) = offsetHeight (elems p n)"
  shows "headerHeight q = headerHeight p"
  using assms by (simp add: headerHeight_def firstWithClass_def split: option.splits)

text \<open>\<open>closeMenu\<close> touches neither the layout readings nor the class \<open>header\<close>, nor the
  log of scroll requests.\<close>

lemma closeMenu_keeps:
  assumes "mobileMenuButton p = Some btn" "mobileMenu p = Some menu"
  shows "\<exists>q. closeMenu p = Normal q \<and> scrollToCalls q = scrollToCalls p \<and>
           headerHeight q = headerHeight p \<and>
           (\<forall>n. offsetTop (elems q n) = offsetTop (elems p n))"
proof -
  define q where "q = (resetIcon btn (classList_remove menu ''active''
           (setAttribute btn ''aria-expanded'' ''false'' p)))\<lparr>bodyOverflow := []\<rparr>"
  have run: "closeMenu p = Normal q"
    unfolding q_def using assms by (rule closeMenu_present)
  have "headerHeight q = headerHeight p"
    by (rule headerHeight_cong) (simp_all add: q_def hasClass_resetIcon hasClass_def[of "_\<lparr>bodyOverflow := _\<rparr>"] hasClass_def[symmetric])
  moreover have "scrollToCalls q = scrollToCalls p" "\<And>n. offsetTop (elems q n) = offsetTop (elems p n)"
    by (simp_all add: q_def)
  ultimately show ?thesis using run by blast
qed

lemma updateFocus_scrollToCalls [simp]: "scrollToCalls (updateFocus el p) = scrollToCalls p"
  by (simp add: updateFocus_def Let_def setTimeout_def)

lemma headerHeight_prevented [simp]:
  "headerHeight (p\<lparr>eventDefaultPrevented := b\<rparr>) = headerHeight p"
  by (rule headerHeight_cong) simp_all

lemma headerHeight_eq:
  "headerHeight p =
     (case firstWithClass p (docOrder p) ''header'' of None \<Rightarrow> 0
      | Some h \<Rightarrow> offsetHeight (elems p h))"
  by (simp add: headerHeight_def split: option.splits)

text \<open>
  What the handler passes to \<open>window.scrollTo\<close>. A click on a link whose fragment
  resolves to an element \<open>el\<close>, on a page that has the mobile-menu trigger and
  container, completes and passes exactly one request: smooth, with top \<open>el.offsetTop\<close>
  minus the header's height minus 20; the header's height is \<open>offsetHeight\<close> of the first
  element of class \<open>header\<close>, and 0 when there is none.
\<close>

lemma anchor_scroll_offsetTop:
  assumes resolves: "querySelector other p (js_string (getAttribute p anchor ''href'')) = Inr (Some el)"
      and menu: "MobileMenu_bound p"
  shows "\<exists>p'. handleAnchorClick other anchor p = Normal p' \<and>
           scrollToCalls p' =
             scrollToCalls p @ [(offsetTop (elems p el) - headerHeight p - 20, ''smooth'')] \<and>
           headerHeight p =
             (case firstWithClass p (docOrder p) ''header'' of None \<Rightarrow> 0
              | Some h \<Rightarrow> offsetHeight (elems p h))"
proof -
  define p0 where "p0 = p\<lparr>eventDefaultPrevented := True\<rparr>"
  from menu obtain btn m where "mobileMenuButton p0 = Some btn" "mobileMenu p0 = Some m"
    by (auto simp: MobileMenu_bound_def p0_def)
  from closeMenu_keeps[OF this] obtain q where
    run: "closeMenu p0 = Normal q" and log: "scrollToCalls q = scrollToCalls p0"
    and hh: "headerHeight q = headerHeight p0"
    and top: "\<And>n. offsetTop (elems q n) = offsetTop (elems p0 n)"
    by blast
  have r: "querySelector other p0 (js_string (getAttribute p0 anchor ''href'')) = Inr (Some el)"
    using resolves by (simp add: p0_def)
  have "\<exists>p'. handleAnchorClick other anchor p = Normal p' \<and>
           scrollToCalls p' =
             scrollToCalls q @ [(offsetTop (elems q el) - headerHeight q - 20, ''smooth'')]"
    using r by (simp add: handleAnchorClick_def p0_def[symmetric] Let_def run andThen_def)
  then show ?thesis
    by (simp add: log hh top headerHeight_eq[symmetric]) (simp add: p0_def)
qed

text \<open>The document offset of an element that is measured from the body is its
  \<open>offsetTop\<close>; there the request is the document offset minus the header's height
  minus 20.\<close>

lemma getOffsetTop_body:
  assumes "offsetParent (elems p el) = None"
  shows "getOffsetTop p el = Some (offsetTop (elems p el))"
  using assms by (simp add: getOffsetTop_def getOffsetTopLoop.simps)

lemma demoPage_scroll:
  "getOffsetTop demoPage 6 = Some 1000 \<and> headerHeight demoPage = 80 \<and>
   returns (handleAnchorClick other 5 demoPage) \<and>
   scrollToCalls (stateOf (handleAnchorClick other 5 demoPage)) = [(900, ''smooth'')]"
proof -
  have r: "querySelector other demoPage (js_string (getAttribute demoPage 5 ''href'')) = Inr (Some 6)"
    by (simp add: demoPage_target js_string_def)
  have b: "MobileMenu_bound demoPage"
    by (simp add: MobileMenu_bound_def demoPage_fields)
  have h: "headerHeight demoPage = 80"
    by (simp add: headerHeight_def firstWithClass_def hasClass_def demoPage_fields
        demoMarkup_def demoElement_def blankElement_def)
  have t: "offsetTop (elems demoPage 6) = 1000" "offsetParent (elems demoPage 6) = None"
    by (simp_all add: demoPage_fields demoElement_def blankElement_def)
  have l: "scrollToCalls demoPage = []"
    by (simp add: demoPage_fields)
  from anchor_scroll_offsetTop [OF r b]
  have "\<exists>p'. handleAnchorClick other 5 demoPage = Normal p' \<and> scrollToCalls p' = [(900, ''smooth'')]"
    by (auto simp add: h t l)
  then have "returns (handleAnchorClick other 5 demoPage)"
    "scrollToCalls (stateOf (handleAnchorClick other 5 demoPage)) = [(900, ''smooth'')]"
    by (auto simp: returns_def stateOf_def)
  with h getOffsetTop_body[OF t(2)] t(1) show ?thesis by simp
qed

lemma nestedPage_fields:
  "mobileMenuButton nestedPage = Some 2"
  "mobileMenu nestedPage = Some 4"
  "docOrder nestedPage = [1, 2, 3, 4, 5, 17, 6, 7, 8, 9, 10, 11, 12, 13, 14, 15, 16]"
  "elems nestedPage = nestedElement"
  "scrollToCalls nestedPage = []"
  by (simp_all add: nestedPage_def initAll_def HeaderScroll_init_def observeElements_def
      FAQ_init_def MobileMenu_init_def demoMarkup_def blankPage_def firstWithClass_def
      getElementById_def getAttribute_def hasClass_def nestedElement_def demoElement_def
      blankElement_def)

text \<open>
  C4. The section \<open>#section2\<close> 1000px down the document, inside a positioned wrapper,
  and a header 80px high: the document offset of the section (\<open>Utils.getOffsetTop\<close>) is
  1000, so the destination should be 1000 - 80 - 20 = 900; the click on the link
  completes and passes 0 to \<open>window.scrollTo\<close>, which is the section's \<open>offsetTop\<close> within
  the wrapper (100) minus 80 minus 20.
\<close>

theorem nested_target_scroll_offset:
  "getOffsetTop nestedPage 6 = Some 1000 \<and> headerHeight nestedPage = 80 \<and>
   returns (handleAnchorClick other 5 nestedPage) \<and>
   scrollToCalls (stateOf (handleAnchorClick other 5 nestedPage)) = [(0, ''smooth'')]"
proof -
  have isn: "isName ''section2''" by (rule isName_section2)
  have r: "querySelector other nestedPage (js_string (getAttribute nestedPage 5 ''href''))
      = Inr (Some 6)"
    by (simp add: querySelector_def isn getElementById_def getAttribute_def js_string_def
        nestedPage_fields nestedElement_def demoElement_def blankElement_def)
  have b: "MobileMenu_bound nestedPage"
    by (simp add: MobileMenu_bound_def nestedPage_fields)
  have h: "headerHeight nestedPage = 80"
    by (simp add: headerHeight_def firstWithClass_def hasClass_def nestedPage_fields
        nestedElement_def demoElement_def blankElement_def)
  have t: "offsetTop (elems nestedPage 6) = 100"
    by (simp add: nestedPage_fields nestedElement_def)
  have d: "getOffsetTop nestedPage 6 = Some 1000"
    by (simp add: getOffsetTop_def getOffsetTopLoop.simps nestedPage_fields nestedElement_def
        blankElement_def)
  have l: "scrollToCalls nestedPage = []"
    by (simp add: nestedPage_fields)
  from anchor_scroll_offsetTop [OF r b]
  have "\<exists>p'. handleAnchorClick other 5 nestedPage = Normal p' \<and> scrollToCalls p' = [(0, ''smooth'')]"
    by (auto simp add: h t l)
  then have "returns (handleAnchorClick other 5 nestedPage)"
    "scrollToCalls (stateOf (handleAnchorClick other 5 nestedPage)) = [(0, ''smooth'')]"
    by (auto simp: returns_def stateOf_def)
  with h d show ?thesis by simp
qed

subsection \<open>Timers and the transient tabindex\<close>

lemma getAttribute_runTimer:
  "getAttribute (runTimer x p) m j =
     (if snd x = RemoveTransientTabindex m \<and> j = ''tabindex'' \<and>
         getAttribute p m ''tabindex'' = Some ''-1''
      then None else getAttribute p m j)"
  by (cases "snd x") (auto simp: runTimer_def runTask_def)

lemma fold_runTimer_keeps:
  assumes "v \<noteq> ''-1''" and "getAttribute s el ''tabindex'' = Some v"
  shows "getAttribute (fold runTimer xs s) el ''tabindex'' = Some v"
  using assms(2) by (induction xs arbitrary: s) (simp_all add: getAttribute_runTimer assms(1))

lemma fold_runTimer_none:
  assumes "getAttribute s el ''tabindex'' = None"
  shows "getAttribute (fold runTimer xs s) el ''tabindex'' = None"
  using assms by (induction xs arbitrary: s) (simp_all add: getAttribute_runTimer)

lemma fold_runTimer_removes:
  assumes "(d, RemoveTransientTabindex el) \<in> set xs"
      and "getAttribute s el ''tabindex'' = Some ''-1'' \<or> getAttribute s el ''tabindex'' = None"
  shows "getAttribute (fold runTimer xs s) el ''tabindex'' = None"
  using assms
proof (induction xs arbitrary: s)
  case Nil
  then show ?case by simp
next
  case (Cons y ys)
  show ?case
  proof (cases "y = (d, RemoveTransientTabindex el)")
    case True
    with Cons.prems(2) have "getAttribute (runTimer y s) el ''tabindex'' = None"
      by (auto simp: getAttribute_runTimer)
    then show ?thesis by (simp add: fold_runTimer_none)
  next
    case False
    with Cons.prems(1) have "(d, RemoveTransientTabindex el) \<in> set ys" by simp
    moreover from Cons.prems(2)
    have "getAttribute (runTimer y s) el ''tabindex'' = Some ''-1'' \<or>
          getAttribute (runTimer y s) el ''tabindex'' = None"
      by (auto simp: getAttribute_runTimer)
    ultimately show ?thesis using Cons.IH by simp
  qed
qed

lemma getAttribute_clock [simp]:
  "getAttribute (p\<lparr>timers := ts, now := t\<rparr>) m j = getAttribute p m j"
  "getAttribute (p\<lparr>timers := ts\<rparr>) m j = getAttribute p m j"
  "getAttribute (p\<lparr>focusCalls := fs\<rparr>) m j = getAttribute p m j"
  "getAttribute (p\<lparr>scrollToCalls := ss\<rparr>) m j = getAttribute p m j"
  "getAttribute (p\<lparr>pushStateCalls := hs\<rparr>) m j = getAttribute p m j"
  by (simp_all add: getAttribute_def)

lemma hasAttribute_getAttribute: "hasAttribute p n k = (getAttribute p n k \<noteq> None)"
  by (simp add: hasAttribute_def getAttribute_def)

lemma getAttribute_updateFocus:
  "getAttribute (updateFocus el p) m j =
     (if m = el \<and> j = ''tabindex'' \<and> getAttribute p el ''tabindex'' = None then Some ''-1''
      else getAttribute p m j)"
  by (simp add: updateFocus_def Let_def setTimeout_def hasAttribute_getAttribute)

lemma timers_updateFocus:
  "timers (updateFocus el p) = timers p @ [(now p + 1000, RemoveTransientTabindex el)]"
  by (simp add: updateFocus_def Let_def setTimeout_def setAttribute_def)

text \<open>An attribute value other than \<open>"-1"\<close> survives the focus move and every timer.\<close>

lemma tabindex_other_value_kept:
  assumes "getAttribute p el ''tabindex'' = Some v" and "v \<noteq> ''-1''"
  shows "getAttribute (updateFocus el p) el ''tabindex'' = Some v \<and>
         getAttribute (advanceTo t (updateFocus el p)) el ''tabindex'' = Some v"
proof -
  have u: "getAttribute (updateFocus el p) el ''tabindex'' = Some v"
    using assms by (simp add: getAttribute_updateFocus)
  have "getAttribute (advanceTo t (updateFocus el p)) el ''tabindex'' = Some v"
    unfolding advanceTo_def Let_def
    by (rule fold_runTimer_keeps[OF assms(2)]) (simp add: u)
  with u show ?thesis by simp
qed

text \<open>Once the attribute reads \<open>"-1"\<close> after the focus move, the timer has removed it
  when the clock has reached one second later: both when the script added it and when
  the page's author wrote it.\<close>

lemma tabindex_minus_one_removed:
  assumes "getAttribute p el ''tabindex'' = None \<or> getAttribute p el ''tabindex'' = Some ''-1''"
      and "now p + 1000 \<le> t"
  shows "getAttribute (updateFocus el p) el ''tabindex'' = Some ''-1'' \<and>
         getAttribute (advanceTo t (updateFocus el p)) el ''tabindex'' = None"
proof -
  have u: "getAttribute (updateFocus el p) el ''tabindex'' = Some ''-1''"
    using assms(1) by (auto simp add: getAttribute_updateFocus)
  have mem: "(now p + 1000, RemoveTransientTabindex el)
      \<in> set (sort_key fst (filter (\<lambda>x. fst x \<le> t) (timers (updateFocus el p))))"
    using assms(2) by (simp add: timers_updateFocus)
  have "getAttribute (advanceTo t (updateFocus el p)) el ''tabindex'' = None"
    unfolding advanceTo_def Let_def
    by (rule fold_runTimer_removes[OF mem]) (simp add: u)
  with u show ?thesis by simp
qed


lemma runTimer_pushStateCalls:
  "runTimer x (s\<lparr>pushStateCalls := h\<rparr>) = (runTimer x s)\<lparr>pushStateCalls := h\<rparr>"
  by (cases "snd x")
     (simp_all add: runTimer_def runTask_def getAttribute_def removeAttribute_def
        classList_add_def updElem_def)

lemma fold_runTimer_pushStateCalls:
  "fold runTimer xs (s\<lparr>pushStateCalls := h\<rparr>) = (fold runTimer xs s)\<lparr>pushStateCalls := h\<rparr>"
  by (induction xs arbitrary: s) (simp_all add: runTimer_pushStateCalls)

lemma advanceTo_pushStateCalls:
  "advanceTo t (s\<lparr>pushStateCalls := h\<rparr>) = (advanceTo t s)\<lparr>pushStateCalls := h\<rparr>"
proof -
  have eq: "(s\<lparr>timers := ts, now := n\<rparr>)\<lparr>pushStateCalls := h\<rparr> =
            s\<lparr>pushStateCalls := h, timers := ts, now := n\<rparr>" for ts n
    by (cases s) simp
  show ?thesis
    by (simp add: advanceTo_def Let_def fold_runTimer_pushStateCalls[symmetric])
       (simp add: eq[symmetric])
qed

text \<open>Where the click resolves and the menu exists, the handler ends with the focus move
  on a page whose clock and whose attributes other than the trigger's \<open>aria-expanded\<close>
  are those of the page clicked on.\<close>

lemma handleAnchorClick_focus:
  assumes resolves: "querySelector other p (js_string (getAttribute p anchor ''href'')) = Inr (Some el)"
      and menu: "MobileMenu_bound p"
  shows "\<exists>q h. handleAnchorClick other anchor p = Normal ((updateFocus el q)\<lparr>pushStateCalls := h\<rparr>) \<and>
           now q = now p \<and> getAttribute q el ''tabindex'' = getAttribute p el ''tabindex''"
proof -
  define p0 where "p0 = p\<lparr>eventDefaultPrevented := True\<rparr>"
  from menu obtain btn m where bm: "mobileMenuButton p0 = Some btn" "mobileMenu p0 = Some m"
    by (auto simp: MobileMenu_bound_def p0_def)
  define q0 where "q0 = (resetIcon btn (classList_remove m ''active''
           (setAttribute btn ''aria-expanded'' ''false'' p0)))\<lparr>bodyOverflow := []\<rparr>"
  have run: "closeMenu p0 = Normal q0"
    unfolding q0_def using bm by (rule closeMenu_present)
  define q where "q = q0\<lparr>scrollToCalls := scrollToCalls q0 @
      [(offsetTop (elems q0 el) - headerHeight q0 - 20, ''smooth'')]\<rparr>"
  have n: "now q = now p"
    by (simp add: q_def q0_def p0_def resetIcon_def setAttribute_def classList_add_def
        classList_remove_def split: option.splits)
  have a: "getAttribute q el ''tabindex'' = getAttribute p el ''tabindex''"
    by (simp add: q_def q0_def p0_def)
  have r: "querySelector other p0 (js_string (getAttribute p0 anchor ''href'')) = Inr (Some el)"
    using resolves by (simp add: p0_def)
  have "handleAnchorClick other anchor p =
      Normal (if getAttribute p0 anchor ''href'' \<noteq> Some ''#''
              then (updateFocus el q)\<lparr>pushStateCalls := pushStateCalls (updateFocus el q) @
                     [getAttribute p0 anchor ''href'']\<rparr>
              else updateFocus el q)"
    using r by (simp add: handleAnchorClick_def p0_def[symmetric] Let_def run andThen_def q_def)
  moreover have "updateFocus el q = (updateFocus el q)\<lparr>pushStateCalls := pushStateCalls (updateFocus el q)\<rparr>"
    by simp
  ultimately have "\<exists>h. handleAnchorClick other anchor p = Normal ((updateFocus el q)\<lparr>pushStateCalls := h\<rparr>)"
  proof (cases "getAttribute p0 anchor ''href'' \<noteq> Some ''#''")
    case True
    assume "handleAnchorClick other anchor p =
      Normal (if getAttribute p0 anchor ''href'' \<noteq> Some ''#''
              then (updateFocus el q)\<lparr>pushStateCalls := pushStateCalls (updateFocus el q) @
                     [getAttribute p0 anchor ''href'']\<rparr>
              else updateFocus el q)"
    with True show ?thesis by auto
  next
    case False
    assume "handleAnchorClick other anchor p =
      Normal (if getAttribute p0 anchor ''href'' \<noteq> Some ''#''
              then (updateFocus el q)\<lparr>pushStateCalls := pushStateCalls (updateFocus el q) @
                     [getAttribute p0 anchor ''href'']\<rparr>
              else updateFocus el q)"
      and "updateFocus el q = (updateFocus el q)\<lparr>pushStateCalls := pushStateCalls (updateFocus el q)\<rparr>"
    with False have "handleAnchorClick other anchor p =
        Normal ((updateFocus el q)\<lparr>pushStateCalls := pushStateCalls (updateFocus el q)\<rparr>)"
      by simp
    then show ?thesis ..
  qed
  with n a show ?thesis by blast
qed

text \<open>
  C9. The target \<open>#section2\<close> of the demo page, given an authored \<open>tabindex="-1"\<close>:
  the focus move leaves the attribute in place, and one second later the timer removes
  it, both for \<open>updateFocus\<close> alone and for the whole click on the link to the target.
\<close>

theorem authored_tabindex_removed:
  "getAttribute (setAttribute 6 ''tabindex'' ''-1'' demoPage) 6 ''tabindex'' = Some ''-1'' \<and>
   getAttribute (updateFocus 6 (setAttribute 6 ''tabindex'' ''-1'' demoPage)) 6 ''tabindex''
     = Some ''-1'' \<and>
   getAttribute (advanceTo 1000 (updateFocus 6 (setAttribute 6 ''tabindex'' ''-1'' demoPage)))
     6 ''tabindex'' = None \<and>
   getAttribute (advanceTo 1000
       (stateOf (handleAnchorClick other 5 (setAttribute 6 ''tabindex'' ''-1'' demoPage))))
     6 ''tabindex'' = None"
proof -
  define P where "P = setAttribute 6 ''tabindex'' ''-1'' demoPage"
  have a: "getAttribute P 6 ''tabindex'' = Some ''-1''"
    by (simp add: P_def)
  have n: "now P = 0"
    by (simp add: P_def setAttribute_def demoPage_fields)
  have u: "getAttribute (updateFocus 6 P) 6 ''tabindex'' = Some ''-1'' \<and>
           getAttribute (advanceTo 1000 (updateFocus 6 P)) 6 ''tabindex'' = None"
    by (rule tabindex_minus_one_removed) (simp_all add: a n)
  have r: "querySelector other P (js_string (getAttribute P 5 ''href'')) = Inr (Some 6)"
    by (simp add: P_def js_string_def demoPage_target)
       (simp add: querySelector_def isName_section2 getElementById_def demoPage_fields
          demoMarkup_def getAttribute_def setAttribute_def demoElement_def blankElement_def)
  have b: "MobileMenu_bound P"
    by (simp add: P_def MobileMenu_bound_def demoPage_fields)
  from handleAnchorClick_focus[OF r b] obtain q h where
    F: "handleAnchorClick other 5 P = Normal ((updateFocus 6 q)\<lparr>pushStateCalls := h\<rparr>)"
    and nq: "now q = now P" and aq: "getAttribute q 6 ''tabindex'' = getAttribute P 6 ''tabindex''"
    by blast
  have "getAttribute (advanceTo 1000 (updateFocus 6 q)) 6 ''tabindex'' = None"
    using tabindex_minus_one_removed[of q 6 1000] by (simp add: aq a nq n)
  then have "getAttribute (advanceTo 1000 (stateOf (handleAnchorClick other 5 P))) 6 ''tabindex'' = None"
    by (simp add: F stateOf_def advanceTo_pushStateCalls)
  with a u show ?thesis unfolding P_def by simp
qed

subsection \<open>HeaderScroll\<close>

lemma hasClass_lastScrollTop [simp]:
  "hasClass (p\<lparr>lastScrollTop := x\<rparr>) n c = hasClass p n c"
  by (simp add: hasClass_def)

lemma lastScrollTop_ops [simp]:
  "lastScrollTop (classList_add n c p) = lastScrollTop p"
  "lastScrollTop (classList_remove n c p) = lastScrollTop p"
  by (simp_all add: classList_add_def classList_remove_def)

text \<open>
  C8. After \<open>handleScroll\<close> has run, the header bears the class \<open>scrolled\<close> if and only
  if the scroll offset the handler read is greater than 10, whatever the page was
  before (its classes and \<open>lastScrollTop\<close> are arbitrary). The offset read is
  \<open>window.pageYOffset || document.documentElement.scrollTop\<close>; it is \<open>pageYOffset\<close>
  whenever the element's \<open>scrollTop\<close> is that same offset or 0, the two values a
  browser gives it.
\<close>

theorem header_scrolled_iff:
  assumes "header p = Some h"
  shows "\<exists>p'. handleScroll p = Normal p' \<and>
           (hasClass p' h ''scrolled'' \<longleftrightarrow> 10 < currentScrollTop p) \<and>
           lastScrollTop p' = currentScrollTop p \<and>
           (documentElementScrollTop p = pageYOffset p \<or> documentElementScrollTop p = 0
              \<longrightarrow> (hasClass p' h ''scrolled'' \<longleftrightarrow> 10 < pageYOffset p))"
proof -
  have c: "currentScrollTop p = pageYOffset p"
    if "documentElementScrollTop p = pageYOffset p \<or> documentElementScrollTop p = 0"
    using that by (auto simp: currentScrollTop_def js_or_def)
  show ?thesis
  proof (cases "10 < currentScrollTop p")
    case True
    with assms have "handleScroll p =
        Normal ((classList_add h ''scrolled'' p)\<lparr>lastScrollTop := currentScrollTop p\<rparr>)"
      by (simp add: handleScroll_def Let_def)
    with True c show ?thesis by auto
  next
    case False
    with assms have "handleScroll p =
        Normal ((classList_remove h ''scrolled'' p)\<lparr>lastScrollTop := currentScrollTop p\<rparr>)"
      by (simp add: handleScroll_def Let_def)
    with False c show ?thesis by auto
  qed
qed

theorem header_scrolled_iff_witness:
  "header (classList_add 1 ''scrolled'' (demoPage\<lparr>pageYOffset := 10, documentElementScrollTop := 10\<rparr>))
     = Some 1 \<and>
   hasClass (classList_add 1 ''scrolled'' (demoPage\<lparr>pageYOffset := 10, documentElementScrollTop := 10\<rparr>))
     1 ''scrolled'' \<and>
   (\<exists>p'. handleScroll (classList_add 1 ''scrolled''
             (demoPage\<lparr>pageYOffset := 10, documentElementScrollTop := 10\<rparr>)) = Normal p' \<and>
      \<not> hasClass p' 1 ''scrolled'') \<and>
   header (demoPage\<lparr>pageYOffset := 11, documentElementScrollTop := 11\<rparr>) = Some 1 \<and>
   \<not> hasClass (demoPage\<lparr>pageYOffset := 11, documentElementScrollTop := 11\<rparr>) 1 ''scrolled'' \<and>
   (\<exists>p'. handleScroll (demoPage\<lparr>pageYOffset := 11, documentElementScrollTop := 11\<rparr>) = Normal p' \<and>
      hasClass p' 1 ''scrolled'')"
proof -
  define A where "A = classList_add 1 ''scrolled''
      (demoPage\<lparr>pageYOffset := 10, documentElementScrollTop := 10\<rparr>)"
  define B where "B = demoPage\<lparr>pageYOffset := 11, documentElementScrollTop := 11\<rparr>"
  have hA: "header A = Some 1" and hB: "header B = Some 1"
    by (simp_all add: A_def B_def classList_add_def demoPage_fields)
  have cA: "hasClass A 1 ''scrolled''"
    by (simp add: A_def del: One_nat_def)
  have cB: "\<not> hasClass B 1 ''scrolled''"
    by (simp add: B_def hasClass_def demoPage_fields demoElement_def blankElement_def)
  have oA: "documentElementScrollTop A = pageYOffset A" "pageYOffset A = 10"
    and oB: "documentElementScrollTop B = pageYOffset B" "pageYOffset B = 11"
    by (simp_all add: A_def B_def classList_add_def)
  from header_scrolled_iff [OF hA] oA
  have a: "\<exists>p'. handleScroll A = Normal p' \<and> \<not> hasClass p' 1 ''scrolled''"
    by auto
  from header_scrolled_iff [OF hB] oB
  have b: "\<exists>p'. handleScroll B = Normal p' \<and> hasClass p' 1 ''scrolled''"
    by auto
  from hA cA a hB cB b show ?thesis
    unfolding A_def B_def by blast
qed

subsection \<open>throttle\<close>















subsection \<open>ScrollAnimations\<close>

lemma revealed_frame [simp]:
  "revealed (p\<lparr>timers := ts\<rparr>) n = revealed p n"
  "revealed (p\<lparr>observed := ob\<rparr>) n = revealed p n"
  "revealed (p\<lparr>timers := ts, now := t\<rparr>) n = revealed p n"
  "revealed (p\<lparr>timers := ts, observed := ob\<rparr>) n = revealed p n"
  by (simp_all add: revealed_def hasClass_def)

lemma setTimeout_frame [simp]:
  "now (setTimeout cb d p) = now p"
  "timers (setTimeout cb d p) = timers p @ [(now p + d, cb)]"
  "observed (setTimeout cb d p) = observed p"
  by (simp_all add: setTimeout_def)

text \<open>The loop of \<open>addStaggeredAnimation\<close> only appends timers, one per item, in order.\<close>

lemma fold_setTimeout:
  "fold (\<lambda>(index, item). setTimeout (AddFadeIn item) (index * 100)) xs p =
     p\<lparr>timers := timers p @ map (\<lambda>(index, item). (now p + index * 100, AddFadeIn item)) xs\<rparr>"
proof (induction xs arbitrary: p)
  case Nil
  show ?case by simp
next
  case (Cons x xs)
  obtain i c where x: "x = (i, c)" by (cases x)
  show ?case
    by (simp add: x Cons.IH) (simp add: setTimeout_def)
qed

lemma isCard_fadeIn [simp]:
  "isCard (classList_add el ''animate-fade-in'' p) = isCard p"
  by (simp add: isCard_def fun_eq_iff)

lemma gridItems_fadeIn [simp]:
  "gridItems (classList_add el ''animate-fade-in'' p) m = gridItems p m"
  by (simp add: gridItems_def)

lemma fadeIn_frame [simp]:
  "now (classList_add n c p) = now p"
  "timers (classList_add n c p) = timers p"
  "observed (classList_add n c p) = observed p"
  by (simp_all add: classList_add_def)

lemma revealEntry_intersecting:
  assumes "isIntersecting en"
  shows "revealEntry en p =
     (classList_add (entryTarget en) ''animate-fade-in'' p)
       \<lparr>timers := timers p @ map (\<lambda>(index, item). (now p + index * 100, AddFadeIn item))
                               (enumerate 0 (gridItems p (entryTarget en))),
        observed := observed p - {entryTarget en}\<rparr>"
  using assms by (simp add: revealEntry_def Let_def addStaggeredAnimation_def fold_setTimeout)

lemma revealed_revealEntry:
  "revealed (revealEntry en p) n = (revealed p n \<or> (isIntersecting en \<and> n = entryTarget en))"
proof (cases "isIntersecting en")
  case True
  then show ?thesis
    by (simp add: revealEntry_intersecting) (auto simp add: revealed_def)
next
  case False
  then show ?thesis by (simp add: revealEntry_def)
qed

lemma observed_revealEntry:
  "observed (revealEntry en p) =
     (if isIntersecting en then observed p - {entryTarget en} else observed p)"
  by (simp add: revealEntry_intersecting) (simp add: revealEntry_def)

lemma revealed_handleIntersection:
  "revealed (handleIntersection entries p) n =
     (revealed p n \<or> (\<exists>en \<in> set entries. isIntersecting en \<and> n = entryTarget en))"
  unfolding handleIntersection_def
  by (induction entries arbitrary: p) (auto simp: revealed_revealEntry)

lemma observed_handleIntersection:
  "observed (handleIntersection entries p) =
     observed p - {entryTarget en |en. en \<in> set entries \<and> isIntersecting en}"
  unfolding handleIntersection_def
  by (induction entries arbitrary: p) (auto simp: observed_revealEntry)

lemma revealed_runTimer:
  "revealed (runTimer x s) n = (revealed s n \<or> snd x = AddFadeIn n)"
  by (cases "snd x")
     (auto simp: runTimer_def runTask_def revealed_def)

lemma revealed_fold_runTimer:
  "revealed (fold runTimer xs s) n = (revealed s n \<or> (\<exists>d. (d, AddFadeIn n) \<in> set xs))"
proof (induction xs arbitrary: s)
  case Nil
  show ?case by simp
next
  case (Cons x xs)
  show ?case
    by (cases x) (auto simp: Cons.IH revealed_runTimer)
qed

text \<open>When the clock has reached \<open>T\<close>, the revealed elements are those that were
  revealed already and those with a reveal timer due by \<open>T\<close>.\<close>

lemma revealed_advanceTo:
  "revealed (advanceTo T p) n =
     (revealed p n \<or> (\<exists>d \<le> T. (d, AddFadeIn n) \<in> set (timers p)))"
  by (auto simp: advanceTo_def Let_def revealed_fold_runTimer)

lemma revealed_revealStep:
  "revealed p n \<Longrightarrow> revealed (revealStep st p) n"
  by (cases st) (simp_all add: revealStep_def revealed_handleIntersection revealed_advanceTo)

lemma trace_revealed:
  "revealed p n \<Longrightarrow> list_all (\<lambda>s. revealed s n) (trace revealStep steps p)"
  by (induction steps arbitrary: p) (simp_all add: revealed_revealStep)

lemma trace_head: "\<exists>rest. trace f xs s = s # rest"
  by (cases xs) simp_all

lemma risings_all_true: "list_all (\<lambda>b. b) bs \<Longrightarrow> risings bs = 0"
  by (induction bs rule: risings.induct) simp_all

lemma trace_risings:
  "risings (map (\<lambda>s. revealed s n) (trace revealStep steps p)) \<le> 1"
proof (induction steps arbitrary: p)
  case Nil
  show ?case by simp
next
  case (Cons st steps)
  obtain rest where rest: "trace revealStep steps (revealStep st p) = revealStep st p # rest"
    using trace_head[of revealStep steps "revealStep st p"] by blast
  show ?case
  proof (cases "revealed (revealStep st p) n")
    case True
    then have "list_all (\<lambda>s. revealed s n) (trace revealStep steps (revealStep st p))"
      by (rule trace_revealed)
    then have "risings (map (\<lambda>s. revealed s n) (trace revealStep steps (revealStep st p))) = 0"
      by (intro risings_all_true) (simp add: list_all_iff)
    then show ?thesis by (simp add: rest)
  next
    case False
    with Cons.IH[of "revealStep st p"] show ?thesis by (simp add: rest)
  qed
qed


lemma stagger_timers:
  "timers (handleIntersection [Entry el True] p) =
     timers p @ map (\<lambda>(index, item). (now p + index * 100, AddFadeIn item))
                  (enumerate 0 (gridItems p el))"
  by (simp add: handleIntersection_def revealEntry_intersecting)

lemma stagger_timer_mem:
  "(d, AddFadeIn c) \<in> set (map (\<lambda>(index, item). (now p + index * 100, AddFadeIn item))
                              (enumerate 0 cards)) \<longleftrightarrow>
   (\<exists>i < length cards. d = now p + i * 100 \<and> cards ! i = c)"
proof
  assume "(d, AddFadeIn c) \<in> set (map (\<lambda>(index, item). (now p + index * 100, AddFadeIn item))
                              (enumerate 0 cards))"
  then obtain j item where "(j, item) \<in> set (enumerate 0 cards)"
    and "d = now p + j * 100" and "c = item"
    by auto
  then show "\<exists>i < length cards. d = now p + i * 100 \<and> cards ! i = c"
    by (auto simp: in_set_enumerate_eq)
next
  assume "\<exists>i < length cards. d = now p + i * 100 \<and> cards ! i = c"
  then obtain i where i: "i < length cards" "d = now p + i * 100" "cards ! i = c"
    by blast
  then have "(i, c) \<in> set (enumerate 0 cards)"
    by (simp add: in_set_enumerate_eq)
  then have "(\<lambda>(index, item). (now p + index * 100, AddFadeIn item)) (i, c)
      \<in> set (map (\<lambda>(index, item). (now p + index * 100, AddFadeIn item)) (enumerate 0 cards))"
    unfolding set_map by (rule imageI)
  with i show "(d, AddFadeIn c) \<in> set (map (\<lambda>(index, item). (now p + index * 100, AddFadeIn item))
                              (enumerate 0 cards))"
    by simp
qed

lemma stagger_revealed_by:
  assumes "i < length (gridItems p el)" and "now p + i * 100 \<le> T"
  shows "revealed (advanceTo T (handleIntersection [Entry el True] p)) (gridItems p el ! i)"
proof -
  have "(now p + i * 100, AddFadeIn (gridItems p el ! i))
      \<in> set (timers (handleIntersection [Entry el True] p))"
    using assms(1) stagger_timer_mem[of "now p + i * 100" "gridItems p el ! i" p "gridItems p el"]
    by (simp add: stagger_timers del: set_map)
  with assms(2) show ?thesis
    by (auto simp: revealed_advanceTo)
qed

lemma stagger_not_before:
  assumes "timers p = []" and "distinct (gridItems p el)" and "el \<notin> set (gridItems p el)"
      and "i < length (gridItems p el)" and "\<not> revealed p (gridItems p el ! i)"
      and "T < now p + i * 100"
  shows "\<not> revealed (advanceTo T (handleIntersection [Entry el True] p)) (gridItems p el ! i)"
proof -
  let ?c = "gridItems p el ! i"
  from assms(3,4) have ne: "?c \<noteq> el"
    by (metis nth_mem)
  with assms(5) have r: "\<not> revealed (handleIntersection [Entry el True] p) ?c"
    by (simp add: revealed_handleIntersection)
  have "\<not> (\<exists>d \<le> T. (d, AddFadeIn ?c) \<in> set (timers (handleIntersection [Entry el True] p)))"
  proof
    assume "\<exists>d \<le> T. (d, AddFadeIn ?c) \<in> set (timers (handleIntersection [Entry el True] p))"
    then obtain d where d: "d \<le> T"
      "(d, AddFadeIn ?c) \<in> set (map (\<lambda>(index, item). (now p + index * 100, AddFadeIn item))
                              (enumerate 0 (gridItems p el)))"
      using assms(1) by (auto simp: stagger_timers simp del: set_map)
    from d(2) obtain j where "j < length (gridItems p el)" "d = now p + j * 100"
      "gridItems p el ! j = ?c"
      unfolding stagger_timer_mem by blast
    with d(1) have "d \<le> T" "j < length (gridItems p el)" "d = now p + j * 100"
      "gridItems p el ! j = ?c" by simp_all
    moreover from this assms(2,4) have "j = i"
      by (simp add: nth_eq_iff_index_eq)
    ultimately show False using assms(6) by simp
  qed
  with r show ?thesis by (simp add: revealed_advanceTo)
qed

text \<open>
  C6. Over any run of observer callbacks and elapsing time, an element that is revealed
  (bears \<open>animate-fade-in\<close>) stays revealed in every later page, so it goes from
  unrevealed to revealed at most once. An entry that intersects leaves its target
  revealed and no longer observed. And when the target \<open>el\<close> of an intersecting entry
  holds the grid items \<open>cards\<close>, the callback sets for the card at index \<open>i\<close> a timer due
  \<open>i * 100\<close> ms later: the card is revealed once the clock has reached that time, and,
  when no other timer was pending and the card was not revealed already, not before.
\<close>

theorem reveal_once_and_stagger:
  "(revealed p n \<longrightarrow> list_all (\<lambda>s. revealed s n) (trace revealStep steps p)) \<and>
   risings (map (\<lambda>s. revealed s n) (trace revealStep steps p)) \<le> 1 \<and>
   (\<forall>en \<in> set entries. isIntersecting en \<longrightarrow>
      revealed (handleIntersection entries p) (entryTarget en) \<and>
      entryTarget en \<notin> observed (handleIntersection entries p)) \<and>
   (let cards = gridItems p el; p' = handleIntersection [Entry el True] p
    in timers p' = timers p @ map (\<lambda>(index, item). (now p + index * 100, AddFadeIn item))
                                 (enumerate 0 cards) \<and>
       (\<forall>i < length cards. \<forall>T. now p + i * 100 \<le> T \<longrightarrow> revealed (advanceTo T p') (cards ! i)) \<and>
       (timers p = [] \<and> distinct cards \<and> el \<notin> set cards \<longrightarrow>
          (\<forall>i < length cards. \<forall>T. \<not> revealed p (cards ! i) \<and> T < now p + i * 100 \<longrightarrow>
             \<not> revealed (advanceTo T p') (cards ! i))))"
proof (intro conjI)
  show "revealed p n \<longrightarrow> list_all (\<lambda>s. revealed s n) (trace revealStep steps p)"
    by (simp add: trace_revealed)
  show "risings (map (\<lambda>s. revealed s n) (trace revealStep steps p)) \<le> 1"
    by (rule trace_risings)
  show "\<forall>en \<in> set entries. isIntersecting en \<longrightarrow>
      revealed (handleIntersection entries p) (entryTarget en) \<and>
      entryTarget en \<notin> observed (handleIntersection entries p)"
    by (auto simp: revealed_handleIntersection observed_handleIntersection)
  show "let cards = gridItems p el; p' = handleIntersection [Entry el True] p
    in timers p' = timers p @ map (\<lambda>(index, item). (now p + index * 100, AddFadeIn item))
                                 (enumerate 0 cards) \<and>
       (\<forall>i < length cards. \<forall>T. now p + i * 100 \<le> T \<longrightarrow> revealed (advanceTo T p') (cards ! i)) \<and>
       (timers p = [] \<and> distinct cards \<and> el \<notin> set cards \<longrightarrow>
          (\<forall>i < length cards. \<forall>T. \<not> revealed p (cards ! i) \<and> T < now p + i * 100 \<longrightarrow>
             \<not> revealed (advanceTo T p') (cards ! i)))"
    unfolding Let_def
    using stagger_timers[of el p] stagger_revealed_by[of _ p el] stagger_not_before[of p el]
    by blast
qed


lemma demoPage_cards:
  "gridItems demoPage 6 = [7, 8, 9]"
  "\<not> revealed demoPage 6"
  "\<not> revealed demoPage 8"
  by (simp_all add: gridItems_def isCard_def revealed_def hasClass_def demoPage_fields
        demoMarkup_def demoElement_def blankElement_def)

theorem reveal_once_and_stagger_witness:
  "gridItems demoPage 6 = [7, 8, 9] \<and> timers demoPage = [] \<and> now demoPage = 0 \<and>
   \<not> revealed demoPage 6 \<and> \<not> revealed demoPage 8 \<and>
   revealed (handleIntersection [Entry 6 True] demoPage) 6 \<and>
   6 \<notin> observed (handleIntersection [Entry 6 True] demoPage) \<and>
   timers (handleIntersection [Entry 6 True] demoPage) =
     [(0, AddFadeIn 7), (100, AddFadeIn 8), (200, AddFadeIn 9)] \<and>
   revealed (advanceTo 100 (handleIntersection [Entry 6 True] demoPage)) 8 \<and>
   \<not> revealed (advanceTo 99 (handleIntersection [Entry 6 True] demoPage)) 8 \<and>
   list_all (\<lambda>s. revealed s 6)
     (trace revealStep [Elapse 150, Intersections [Entry 6 True], Elapse 100]
        (handleIntersection [Entry 6 True] demoPage)) \<and>
   risings (map (\<lambda>s. revealed s 6)
     (trace revealStep [Intersections [Entry 6 True], Elapse 150,
        Intersections [Entry 6 True], Elapse 100] demoPage)) \<le> 1"
proof -
  define P where "P = handleIntersection [Entry 6 True] demoPage"
  note t = reveal_once_and_stagger [of demoPage 6
      "[Intersections [Entry 6 True], Elapse 150, Intersections [Entry 6 True], Elapse 100]"
      "[Entry 6 True]" 6, unfolded Let_def, folded P_def]
  have tm: "timers demoPage = []" and nw: "now demoPage = 0"
    by (simp_all add: demoPage_fields)
  from t have r: "revealed P 6" and o: "6 \<notin> observed P"
    by simp_all
  from t have ts: "timers P = [(0, AddFadeIn 7), (100, AddFadeIn 8), (200, AddFadeIn 9)]"
    by (simp add: demoPage_cards tm nw enumerate_simps)
  from t have "\<forall>i<length (gridItems demoPage 6). \<forall>T. now demoPage + i * 100 \<le> T \<longrightarrow>
      revealed (advanceTo T P) (gridItems demoPage 6 ! i)"
    by blast
  from this[rule_format, of 1 100] have a: "revealed (advanceTo 100 P) 8"
    by (simp add: demoPage_cards nw)
  from t have "timers demoPage = [] \<and> distinct (gridItems demoPage 6) \<and> 6 \<notin> set (gridItems demoPage 6) \<longrightarrow>
      (\<forall>i<length (gridItems demoPage 6). \<forall>T. \<not> revealed demoPage (gridItems demoPage 6 ! i) \<and>
          T < now demoPage + i * 100 \<longrightarrow> \<not> revealed (advanceTo T P) (gridItems demoPage 6 ! i))"
    by blast
  then have "\<forall>i<length (gridItems demoPage 6). \<forall>T. \<not> revealed demoPage (gridItems demoPage 6 ! i) \<and>
          T < now demoPage + i * 100 \<longrightarrow> \<not> revealed (advanceTo T P) (gridItems demoPage 6 ! i)"
    by (simp add: demoPage_cards tm)
  from this[rule_format, of 1 99] have b: "\<not> revealed (advanceTo 99 P) 8"
    by (simp add: demoPage_cards nw)
  from t have c: "risings (map (\<lambda>s. revealed s 6)
     (trace revealStep [Intersections [Entry 6 True], Elapse 150,
        Intersections [Entry 6 True], Elapse 100] demoPage)) \<le> 1"
    by blast
  from reveal_once_and_stagger [of P 6 "[Elapse 150, Intersections [Entry 6 True], Elapse 100]"] r
  have d: "list_all (\<lambda>s. revealed s 6)
     (trace revealStep [Elapse 150, Intersections [Entry 6 True], Elapse 100] P)"
    by blast
  from tm nw r o ts a b c d show ?thesis
    unfolding P_def using demoPage_cards by blast
qed

end
